theory Spec2Isabelle
  imports Complex_Main
begin

section \<open>Leaky integrate-and-fire neuron: the simulation loops of SNN-Exercise-1.py\<close>

text \<open>
  The script integrates the LIF equation with the forward Euler method and layers a
  threshold test with reset on top. It is a notebook export: the same \<open>while\<close> loop is
  written out in Tasks 1 to 5, over the module-level variables
  \<open>dt, R, tau_m, u_rest, u_reset, u_thres\<close>. Here the loop is embedded once, with these
  variables collected in a record and the horizon (the literal \<open>1\<close>, or \<open>0.15\<close> in Task 5)
  and the input current as arguments.

  Numbers: Python's \<open>float\<close> is modelled by \<open>real\<close>, so every arithmetic operation is
  exact; rounding is not part of the model. Division is the one operation of the loop that
  can raise (\<open>ZeroDivisionError\<close>, when \<open>tau_m\<close> is zero); it is a branch of the loop.
  A \<open>while\<close> loop that may run forever is a \<open>partial_function\<close> in the option monad:
  \<open>None\<close> means that the loop does not return.
\<close>

subsection \<open>Parameters and loop state\<close>

datatype error = ZeroDivisionError

record params =
  dt :: real
  R :: real
  tau_m :: real
  u_rest :: real
  u_reset :: real
  u_thres :: real

text \<open>The variables the inner loop reads and writes: the clock \<open>t\<close>, the membrane potential
  \<open>u\<close>, the plotting placeholders \<open>t_i\<close> and \<open>u_i\<close>, and the spike lists.\<close>

record sim =
  t :: real
  u :: real
  t_i :: "real list"
  u_i :: "real list"
  t_spike :: "real list"
  n_spike :: "nat list"

text \<open>\<open>n_id = 0\<close>: the neuron identifier, only one neuron in the simulation.\<close>

definition n_id :: nat where
  "n_id = 0"

subsection \<open>The body of the loop\<close>

text \<open>\<open>du_dt = (-(u - u_rest) + R * I_syn) / tau_m\<close>\<close>

definition du_dt :: "params \<Rightarrow> real \<Rightarrow> real \<Rightarrow> real" where
  "du_dt p I_syn v = (- (v - u_rest p) + R p * I_syn) / tau_m p"

text \<open>\<open>u += du_dt * dt\<close>\<close>

definition euler_forward_step :: "params \<Rightarrow> real \<Rightarrow> 'a sim_scheme \<Rightarrow> 'a sim_scheme" where
  "euler_forward_step p I_syn s = s\<lparr>u := u s + du_dt p I_syn (u s) * dt p\<rparr>"

text \<open>\<open>u_i.append(u)  # Store u(t)\<close>\<close>

definition store_u :: "'a sim_scheme \<Rightarrow> 'a sim_scheme" where
  "store_u s = s\<lparr>u_i := u_i s @ [u s]\<rparr>"

text \<open>\<open>if u >= u_thres: t_spike.append(t); n_spike.append(n_id); u = u_reset\<close>\<close>

definition spike_condition :: "params \<Rightarrow> 'a sim_scheme \<Rightarrow> 'a sim_scheme" where
  "spike_condition p s =
     (if u s \<ge> u_thres p
      then s\<lparr>t_spike := t_spike s @ [t s], n_spike := n_spike s @ [n_id], u := u_reset p\<rparr>
      else s)"

text \<open>\<open>t_i.append(t); t += dt\<close>\<close>

definition timestep_completed :: "params \<Rightarrow> 'a sim_scheme \<Rightarrow> 'a sim_scheme" where
  "timestep_completed p s = s\<lparr>t_i := t_i s @ [t s], t := t s + dt p\<rparr>"

definition loop_body :: "params \<Rightarrow> real \<Rightarrow> sim \<Rightarrow> sim" where
  "loop_body p I_syn s =
     timestep_completed p (spike_condition p (store_u (euler_forward_step p I_syn s)))"

subsection \<open>Tasks 1, 3 and 4: one run\<close>

text \<open>\<open>while t <= T: ...\<close>. The division raises in the first iteration when \<open>tau_m\<close> is zero.\<close>

partial_function (option) simulate :: "params \<Rightarrow> real \<Rightarrow> real \<Rightarrow> sim \<Rightarrow> (error + sim) option" where
  "simulate p T I_syn s =
     (if t s \<le> T
      then (if tau_m p = 0 then Some (Inl ZeroDivisionError)
            else simulate p T I_syn (loop_body p I_syn s))
      else Some (Inr s))"

text \<open>\<open>t = 0; u = u_rest\<close> and the four empty lists.\<close>

definition init :: "params \<Rightarrow> sim" where
  "init p = \<lparr>t = 0, u = u_rest p, t_i = [], u_i = [], t_spike = [], n_spike = []\<rparr>"

definition run_simulation :: "params \<Rightarrow> real \<Rightarrow> real \<Rightarrow> (error + sim) option" where
  "run_simulation p T I_syn = simulate p T I_syn (init p)"

subsection \<open>Task 2: the search for the smallest spiking current\<close>

text \<open>
  \<open>while t_spike == []: <one run with I_syn>; I_syn += step\<close>. The increment follows
  every run, the one that spiked included; the value printed after the loop is \<open>I_syn\<close>.
  The result is that value together with the state of the last run (what is plotted).
  The script does not reset \<open>t_spike\<close> inside the loop; the list is empty whenever a run
  starts, because the loop goes on only while it is empty. The script's step is the literal
  \<open>1 * 10**(-12)\<close> and its start \<open>50 * 10**(-12)\<close>; here both are arguments.
\<close>

partial_function (option) find_rheobase ::
    "params \<Rightarrow> real \<Rightarrow> real \<Rightarrow> real \<Rightarrow> (error + real \<times> sim) option" where
  "find_rheobase p T step_I I_syn =
     Option.bind (run_simulation p T I_syn) (\<lambda>r.
       case r of
         Inl e \<Rightarrow> Some (Inl e)
       | Inr s \<Rightarrow>
           if t_spike s = [] then find_rheobase p T step_I (I_syn + step_I)
           else Some (Inr (I_syn + step_I, s)))"

subsection \<open>Task 5: a stimulus that is switched off, and the search over its duration\<close>

text \<open>
  In Task 5 the inner loop also writes \<open>I_syn\<close> (the assignment \<open>I_syn = 0\<close>) and the list
  \<open>t_st\<close> of reported times, so both are part of the loop state. \<open>index\<close> is the position of
  the current in \<open>currents\<close>.
\<close>

record stim = sim +
  I_syn :: real
  t_st :: "real list"

text \<open>\<open>if t >= t_stimuli: I_syn = 0\<close>\<close>

definition switch_off :: "real \<Rightarrow> stim \<Rightarrow> stim" where
  "switch_off t_stimuli s = (if t s \<ge> t_stimuli then s\<lparr>I_syn := 0\<rparr> else s)"

text \<open>The spike condition of Task 5: as before, and then
  \<open>if len(t_st) < index+1: t_st.append(t)\<close>.\<close>

definition spike_condition_5 :: "params \<Rightarrow> nat \<Rightarrow> stim \<Rightarrow> stim" where
  "spike_condition_5 p index s =
     (if u s \<ge> u_thres p
      then (let s' = s\<lparr>t_spike := t_spike s @ [t s], n_spike := n_spike s @ [n_id],
                         u := u_reset p\<rparr>
            in if length (t_st s') < index + 1 then s'\<lparr>t_st := t_st s' @ [t s']\<rparr> else s')
      else s)"

definition loop_body_5 :: "params \<Rightarrow> nat \<Rightarrow> real \<Rightarrow> stim \<Rightarrow> stim" where
  "loop_body_5 p index t_stimuli s =
     (let s1 = switch_off t_stimuli s
      in timestep_completed p
           (spike_condition_5 p index (store_u (euler_forward_step p (I_syn s1) s1))))"

partial_function (option) simulate_5 ::
    "params \<Rightarrow> real \<Rightarrow> nat \<Rightarrow> real \<Rightarrow> stim \<Rightarrow> (error + stim) option" where
  "simulate_5 p T index t_stimuli s =
     (if t s \<le> T
      then (if tau_m p = 0 then Some (Inl ZeroDivisionError)
            else simulate_5 p T index t_stimuli (loop_body_5 p index t_stimuli s))
      else Some (Inr s))"

text \<open>The start of one run inside the search: \<open>t = 0; u = u_rest\<close>, fresh \<open>t_i, u_i, t_spike\<close>;
  \<open>I_syn\<close> and \<open>t_st\<close> are whatever the previous run left.\<close>

definition init_5 :: "params \<Rightarrow> real \<Rightarrow> real list \<Rightarrow> stim" where
  "init_5 p I ts =
     \<lparr>t = 0, u = u_rest p, t_i = [], u_i = [], t_spike = [], n_spike = [], I_syn = I, t_st = ts\<rparr>"

text \<open>
  \<open>while not len(n_spike): t_stimuli += step; <one run>\<close>. The result is the cutoff
  \<open>t_stimuli\<close> at the exit of the loop together with the state of the last run, whose
  \<open>t_st\<close> holds the time the script prints. \<open>n_spike\<close> is set to \<open>[]\<close> before the loop
  only; it is empty whenever a run starts, because the loop goes on only while it is empty.
  The script's increment is the literal \<open>1e-1\<close>; here it is an argument.
\<close>

partial_function (option) search_duration ::
    "params \<Rightarrow> real \<Rightarrow> nat \<Rightarrow> real \<Rightarrow> real \<Rightarrow> real \<Rightarrow> real list \<Rightarrow> (error + real \<times> stim) option" where
  "search_duration p T index step_duration I t_stimuli ts =
     Option.bind (simulate_5 p T index (t_stimuli + step_duration) (init_5 p I ts)) (\<lambda>r.
       case r of
         Inl e \<Rightarrow> Some (Inl e)
       | Inr s \<Rightarrow>
           if length (n_spike s) = 0
           then search_duration p T index step_duration (I_syn s) (t_stimuli + step_duration) (t_st s)
           else Some (Inr (t_stimuli + step_duration, s)))"

text \<open>One pass of \<open>for index, i in enumerate(currents)\<close>: \<open>I_syn = i * 10**(-12)\<close>,
  \<open>t_stimuli = 0\<close>, then the search.\<close>

definition find_min_stimulus_duration ::
    "params \<Rightarrow> real \<Rightarrow> nat \<Rightarrow> real \<Rightarrow> real \<Rightarrow> real list \<Rightarrow> (error + real \<times> stim) option" where
  "find_min_stimulus_duration p T index step_duration I ts =
     search_duration p T index step_duration I 0 ts"

subsection \<open>The script's parameters\<close>

text \<open>
  \<open>dt = 10**(-5)\<close>, \<open>R = 95 * 10**6\<close>, \<open>tau_m = 30 * 10**(-3)\<close>,
  \<open>u_rest = u_reset = -65 * 10**(-3)\<close>, \<open>u_thres = -50 * 10**(-3)\<close>.
\<close>

definition p_ref :: params where
  "p_ref = \<lparr>dt = 1 / 10 ^ 5, R = 95 * 10 ^ 6, tau_m = 30 / 10 ^ 3, u_rest = - 65 / 10 ^ 3,
            u_reset = - 65 / 10 ^ 3, u_thres = - 50 / 10 ^ 3\<rparr>"

subsection \<open>Notions used in the properties\<close>

text \<open>The number of iterations \<open>while t <= T\<close> still makes from a state, when \<open>dt\<close> is
  positive.\<close>

definition steps_left :: "params \<Rightarrow> real \<Rightarrow> 'a sim_scheme \<Rightarrow> nat" where
  "steps_left p T s = (if t s \<le> T then nat \<lfloor>(T - t s) / dt p\<rfloor> + 1 else 0)"

text \<open>\<open>len(t_spike)\<close> after one run: what Task 3 prints and Task 4 stores as \<open>freq\<close>.\<close>

definition spike_count :: "params \<Rightarrow> real \<Rightarrow> real \<Rightarrow> nat option" where
  "spike_count p T I =
     (case run_simulation p T I of Some (Inr s) \<Rightarrow> Some (length (t_spike s)) | _ \<Rightarrow> None)"

text \<open>The runs of the duration search in the order the script makes them, without the exit
  test: run \<open>k + 1\<close> starts from the \<open>I_syn\<close> and \<open>t_st\<close> that run \<open>k\<close> left.\<close>

fun duration_run ::
    "params \<Rightarrow> real \<Rightarrow> nat \<Rightarrow> real \<Rightarrow> real \<Rightarrow> real \<Rightarrow> real list \<Rightarrow> nat \<Rightarrow> (error + stim) option" where
  "duration_run p T index step_duration I t_stimuli ts 0 =
     simulate_5 p T index (t_stimuli + step_duration) (init_5 p I ts)"
| "duration_run p T index step_duration I t_stimuli ts (Suc k) =
     (case simulate_5 p T index (t_stimuli + step_duration) (init_5 p I ts) of
        Some (Inr s) \<Rightarrow>
          duration_run p T index step_duration (I_syn s) (t_stimuli + step_duration) (t_st s) k
      | r \<Rightarrow> r)"

text \<open>
  For comparison with the source, the bounded stimulus in the words of the specification:
  \<open>bounded(I, t_cutoff)\<close> returns \<open>I\<close> for \<open>t < t_cutoff\<close>, else 0. The script has no such
  function; what its loop does is \<open>switch_off\<close> above.
\<close>

definition bounded_profile :: "real \<Rightarrow> real \<Rightarrow> real \<Rightarrow> real" where
  "bounded_profile I t_cutoff x = (if x < t_cutoff then I else 0)"

text \<open>The current that the integration of a Task 5 timestep uses, from the state at the
  start of the timestep.\<close>

definition current_used :: "real \<Rightarrow> stim \<Rightarrow> real" where
  "current_used t_stimuli s = I_syn (switch_off t_stimuli s)"

text \<open>The relation that two runs in lockstep keep, the first with the smaller current: it
  has fewer spikes, or as many and a potential that is not higher. (\<open>I2\<close> is the larger
  current.)\<close>

definition behind :: "params \<Rightarrow> real \<Rightarrow> sim \<Rightarrow> sim \<Rightarrow> bool" where
  "behind p I2 x y \<longleftrightarrow>
     (length (t_spike x) < length (t_spike y) \<and> u x \<le> u_thres p \<and>
        (u_reset p \<le> u_rest p + R p * I2 \<longrightarrow> u_reset p \<le> u y)) \<or>
     (length (t_spike x) = length (t_spike y) \<and> u x \<le> u y)"

text \<open>Parameters with a timestep of three time constants, where the Euler step overshoots.\<close>

definition p_coarse :: params where
  "p_coarse = \<lparr>dt = 3, R = 1, tau_m = 1, u_rest = 0, u_reset = 9 / 10, u_thres = 1\<rparr>"

section \<open>Properties\<close>

subsection \<open>The loop as an iteration of its body\<close>

lemmas body_defs = loop_body_def timestep_completed_def spike_condition_def store_u_def
  euler_forward_step_def du_dt_def

lemma t_loop_body: "t (loop_body p I s) = t s + dt p"
  by (simp add: body_defs)

lemma steps_left_body:
  assumes "0 < dt p" and "t s \<le> T"
  shows "steps_left p T s = Suc (steps_left p T (loop_body p I s))"
proof (cases "t s + dt p \<le> T")
  case True
  then have "1 \<le> (T - t s) / dt p"
    using assms by (simp add: field_simps)
  then have f: "1 \<le> \<lfloor>(T - t s) / dt p\<rfloor>"
    by linarith
  have "(T - (t s + dt p)) / dt p = (T - t s) / dt p - 1"
    using assms by (simp add: field_simps)
  then have "\<lfloor>(T - (t s + dt p)) / dt p\<rfloor> = \<lfloor>(T - t s) / dt p\<rfloor> - 1"
    by simp
  with f True assms show ?thesis
    by (simp add: steps_left_def t_loop_body nat_diff_distrib)
next
  case False
  then have "(T - t s) / dt p < 1"
    using assms by (simp add: field_simps)
  moreover have "0 \<le> (T - t s) / dt p"
    using assms by simp
  ultimately have "\<lfloor>(T - t s) / dt p\<rfloor> = 0"
    by linarith
  with False assms show ?thesis
    by (simp add: steps_left_def t_loop_body)
qed

text \<open>With a positive timestep and a nonzero time constant the loop returns, and its result
  is the body iterated \<open>steps_left\<close> times.\<close>

lemma simulate_unroll:
  assumes "0 < dt p" and "tau_m p \<noteq> 0"
  shows "simulate p T I s = Some (Inr ((loop_body p I ^^ steps_left p T s) s))"
proof (induction "steps_left p T s" arbitrary: s)
  case 0
  then have "\<not> t s \<le> T"
    by (simp add: steps_left_def split: if_splits)
  then show ?case
    using 0 by (subst simulate.simps) (simp add: steps_left_def)
next
  case (Suc n)
  then have le: "t s \<le> T"
    by (simp add: steps_left_def split: if_splits)
  from steps_left_body [OF assms(1) le, of I] Suc(2)
  have n: "n = steps_left p T (loop_body p I s)"
    by simp
  have "simulate p T I s = simulate p T I (loop_body p I s)"
    using le assms by (subst simulate.simps) simp
  also have "\<dots> = Some (Inr ((loop_body p I ^^ n) (loop_body p I s)))"
    using Suc(1) [OF n] n by simp
  finally show ?case
    using Suc(2) [symmetric] by (simp add: funpow_swap1)
qed

text \<open>Partial correctness: what the body preserves holds of the result, whenever the loop
  returns one.\<close>

lemma simulate_invariant:
  assumes "simulate p T I s = Some (Inr s')" and "Inv s"
    and "\<And>x. Inv x \<Longrightarrow> t x \<le> T \<Longrightarrow> Inv (loop_body p I x)"
  shows "Inv s' \<and> \<not> t s' \<le> T"
proof -
  define Q where "Q = (\<lambda>(p'::params) (T'::real) (I'::real) (x::sim) (y::error + sim).
     \<forall>x'. y = Inr x' \<longrightarrow> p' = p \<and> T' = T \<and> I' = I \<longrightarrow> Inv x \<longrightarrow> Inv x' \<and> \<not> t x' \<le> T)"
  have "Q p T I s (Inr s')"
  proof (rule simulate.raw_induct [where P = Q, OF _ assms(1)])
    fix f p' T' I' x y
    assume IH: "\<And>p T I x y. f p T I x = Some y \<Longrightarrow> Q p T I x y"
      and eq: "(if t x \<le> T' then if tau_m p' = 0 then Some (Inl ZeroDivisionError)
                 else f p' T' I' (loop_body p' I' x) else Some (Inr x)) = Some y"
    show "Q p' T' I' x y"
    proof (cases "t x \<le> T'")
      case True
      show ?thesis
      proof (cases "tau_m p' = 0")
        case True
        with \<open>t x \<le> T'\<close> eq show ?thesis
          by (auto simp: Q_def)
      next
        case False
        with True eq have "f p' T' I' (loop_body p' I' x) = Some y"
          by simp
        from IH [OF this] True assms(3) show ?thesis
          by (auto simp: Q_def)
      qed
    next
      case False
      with eq show ?thesis
        by (auto simp: Q_def)
    qed
  qed
  with assms(2) show ?thesis
    by (simp add: Q_def)
qed

subsection \<open>The Euler step\<close>

text \<open>
  Claim C6. The integrator is one arithmetic update: the next potential is
  \<open>u + dt * (-(u - u_rest) + R * I) / tau_m\<close>, computed without a test on \<open>u\<close>, and the step
  changes no other variable of the loop. (\<open>tau_m\<close> is not zero: there the division raises.)
\<close>

theorem euler_forward_step_formula:
  "tau_m p \<noteq> 0 \<Longrightarrow>
   euler_forward_step p I s =
     s\<lparr>u := u s + dt p * (- (u s - u_rest p) + R p * I) / tau_m p\<rparr>"
  by (simp add: euler_forward_step_def du_dt_def)

theorem euler_forward_step_formula_witness:
  "tau_m p_ref \<noteq> 0 \<and>
   euler_forward_step p_ref (50 / 10 ^ 12) (init p_ref) =
     (init p_ref)\<lparr>u := - 65 / 1000 + 19 / 12000000\<rparr>"
  using euler_forward_step_formula [of p_ref "50 / 10 ^ 12" "init p_ref"]
  by (simp add: p_ref_def init_def)

subsection \<open>Spike detection and reset\<close>

text \<open>
  Claim C7. In every timestep, after the integration: when the new potential has reached
  \<open>u_thres\<close>, exactly one spike \<open>(t, n_id)\<close> is appended and \<open>u\<close> becomes \<open>u_reset\<close>; otherwise
  \<open>u\<close> and the spike lists stay as they are. A timestep never appends more than one spike,
  however far the potential went beyond the threshold.
\<close>

theorem one_spike_per_step:
  "(u (euler_forward_step p I s) \<ge> u_thres p \<longrightarrow>
      t_spike (loop_body p I s) = t_spike s @ [t s] \<and>
      n_spike (loop_body p I s) = n_spike s @ [n_id] \<and>
      u (loop_body p I s) = u_reset p) \<and>
   (u (euler_forward_step p I s) < u_thres p \<longrightarrow>
      t_spike (loop_body p I s) = t_spike s \<and>
      n_spike (loop_body p I s) = n_spike s \<and>
      u (loop_body p I s) = u (euler_forward_step p I s)) \<and>
   length (t_spike (loop_body p I s)) \<le> length (t_spike s) + 1"
  by (simp add: body_defs)

text \<open>Two instances. With 1 mA from rest the potential jumps to about 31.6 V, far above the
  threshold, and the step still records the single spike at \<open>t = 0\<close>. With the 50 pA of Task 1
  the first step stays below the threshold and records no spike.\<close>

theorem one_spike_per_step_witness:
  "u (euler_forward_step p_ref (1 / 1000) (init p_ref)) \<ge> u_thres p_ref + 30 \<and>
   t_spike (loop_body p_ref (1 / 1000) (init p_ref)) = [0] \<and>
   n_spike (loop_body p_ref (1 / 1000) (init p_ref)) = [n_id] \<and>
   u (loop_body p_ref (1 / 1000) (init p_ref)) = u_reset p_ref \<and>
   u (euler_forward_step p_ref (50 / 10 ^ 12) (init p_ref)) < u_thres p_ref \<and>
   t_spike (loop_body p_ref (50 / 10 ^ 12) (init p_ref)) = [] \<and>
   n_spike (loop_body p_ref (50 / 10 ^ 12) (init p_ref)) = [] \<and>
   u (loop_body p_ref (50 / 10 ^ 12) (init p_ref)) = - 65 / 1000 + 19 / 12000000"
  using one_spike_per_step [of p_ref "1 / 1000" "init p_ref"]
    one_spike_per_step [of p_ref "50 / 10 ^ 12" "init p_ref"]
  by (simp add: p_ref_def init_def euler_forward_step_def du_dt_def)

subsection \<open>What a timestep records\<close>

text \<open>In the result of a run the spike times are the times of the samples whose recorded
  potential has reached the threshold.\<close>

lemma run_spikes_are_samples:
  assumes "run_simulation p T I = Some (Inr s')"
  shows "t_spike s' = map fst (filter (\<lambda>(x, v). v \<ge> u_thres p) (zip (t_i s') (u_i s')))"
proof -
  define Inv where "Inv = (\<lambda>x::sim. length (t_i x) = length (u_i x) \<and>
      t_spike x = map fst (filter (\<lambda>(a, v). v \<ge> u_thres p) (zip (t_i x) (u_i x))))"
  have "Inv (init p)"
    by (simp add: Inv_def init_def)
  moreover have "Inv (loop_body p I x)" if "Inv x" for x
    using that by (simp add: Inv_def body_defs)
  ultimately have "Inv s'"
    using simulate_invariant [of p T I "init p" s' Inv] assms
    by (simp add: run_simulation_def)
  then show ?thesis
    by (simp add: Inv_def)
qed

lemma run_ref_three_steps:
  "run_simulation p_ref (2 / 10 ^ 5) (1 / 10 ^ 6) =
     Some (Inr \<lparr>t = 3 / 10 ^ 5, u = - 65 / 1000, t_i = [0, 1 / 10 ^ 5, 2 / 10 ^ 5],
       u_i = [- 1 / 30, - 1 / 30, - 1 / 30], t_spike = [0, 1 / 10 ^ 5, 2 / 10 ^ 5],
       n_spike = [n_id, n_id, n_id]\<rparr>)"
  by (simp add: run_simulation_def simulate.simps p_ref_def init_def body_defs)

text \<open>
  Claim C1, as the script has it. A timestep integrates to the new potential, commits it
  to \<open>u\<close>, appends it to the recorded series \<open>u_i\<close>, and only then tests for a spike (which
  may overwrite \<open>u\<close> with \<open>u_reset\<close> and append a spike); the time is appended to \<open>t_i\<close> last.
  So the sample of a step in which a spike occurs holds the potential that reached the
  threshold, not \<open>u_reset\<close>: in the result of a run the spikes are exactly the samples with
  a recorded potential at or above \<open>u_thres\<close>.
\<close>

theorem sample_before_reset:
  "u_i (loop_body p I s) = u_i s @ [u (euler_forward_step p I s)] \<and>
   t_i (loop_body p I s) = t_i s @ [t s] \<and>
   (u (euler_forward_step p I s) \<ge> u_thres p \<longrightarrow>
      t_spike (loop_body p I s) = t_spike s @ [t s] \<and>
      u (loop_body p I s) = u_reset p \<and>
      last (u_i (loop_body p I s)) \<ge> u_thres p) \<and>
   (run_simulation p T I = Some (Inr s') \<longrightarrow>
      t_spike s' = map fst (filter (\<lambda>(x, v). v \<ge> u_thres p) (zip (t_i s') (u_i s'))))"
  using run_spikes_are_samples [of p T I s'] by (simp add: body_defs)

theorem sample_before_reset_witness:
  "u (euler_forward_step p_ref (1 / 10 ^ 6) (init p_ref)) \<ge> u_thres p_ref \<and>
   t_i (loop_body p_ref (1 / 10 ^ 6) (init p_ref)) = [0] \<and>
   u_i (loop_body p_ref (1 / 10 ^ 6) (init p_ref)) = [- 1 / 30] \<and>
   t_spike (loop_body p_ref (1 / 10 ^ 6) (init p_ref)) = [0] \<and>
   u (loop_body p_ref (1 / 10 ^ 6) (init p_ref)) = u_reset p_ref \<and>
   - 1 / 30 \<ge> u_thres p_ref \<and>
   run_simulation p_ref (2 / 10 ^ 5) (1 / 10 ^ 6) =
     Some (Inr \<lparr>t = 3 / 10 ^ 5, u = - 65 / 1000, t_i = [0, 1 / 10 ^ 5, 2 / 10 ^ 5],
       u_i = [- 1 / 30, - 1 / 30, - 1 / 30], t_spike = [0, 1 / 10 ^ 5, 2 / 10 ^ 5],
       n_spike = [n_id, n_id, n_id]\<rparr>) \<and>
   [0, 1 / 10 ^ 5, 2 / 10 ^ 5] =
     map fst (filter (\<lambda>(x, v). v \<ge> u_thres p_ref)
       (zip [0, 1 / 10 ^ 5, 2 / 10 ^ 5] [- 1 / 30, - 1 / 30, - 1 / 30 :: real]))"
  using sample_before_reset [of p_ref "1 / 10 ^ 6" "init p_ref" "2 / 10 ^ 5"
      "\<lparr>t = 3 / 10 ^ 5, u = - 65 / 1000, t_i = [0, 1 / 10 ^ 5, 2 / 10 ^ 5],
       u_i = [- 1 / 30, - 1 / 30, - 1 / 30], t_spike = [0, 1 / 10 ^ 5, 2 / 10 ^ 5],
       n_spike = [n_id, n_id, n_id]\<rparr>"]
    run_ref_three_steps
  by (simp add: p_ref_def init_def euler_forward_step_def du_dt_def)

text \<open>The claim as stated asks for \<open>u_reset\<close> in the sample of a spiking step. With the
  script's parameters and 1 uA the first step spikes, and the sample it records is
  \<open>-1/30\<close> V, which is not \<open>u_reset\<close>.\<close>

theorem sample_is_not_reset_counterexample:
  "loop_body p_ref (1 / 10 ^ 6) (init p_ref) =
     \<lparr>t = 1 / 10 ^ 5, u = - 65 / 1000, t_i = [0], u_i = [- 1 / 30], t_spike = [0],
      n_spike = [n_id]\<rparr> \<and>
   u_reset p_ref = - 65 / 1000 \<and> - 1 / 30 \<noteq> u_reset p_ref"
  by (simp add: p_ref_def init_def body_defs)

subsection \<open>The potential at a step boundary\<close>

text \<open>
  Claim C10. When \<open>u_reset < u_thres\<close>, the potential carried out of a timestep is strictly
  below \<open>u_thres\<close>: after one step from any state, after any positive number of steps, and
  in the result of a run that made a step. A potential at or above the threshold is seen
  only in the recorded sample, which is the potential before the spike test.
\<close>

theorem below_threshold_at_step_boundary:
  assumes "u_reset p < u_thres p"
  shows "u (loop_body p I s) < u_thres p \<and>
         last (u_i (loop_body p I s)) = u (euler_forward_step p I s) \<and>
         (0 < n \<longrightarrow> u ((loop_body p I ^^ n) s) < u_thres p) \<and>
         (0 \<le> T \<longrightarrow> run_simulation p T I = Some (Inr s') \<longrightarrow> u s' < u_thres p)"
proof -
  have step: "u (loop_body p I x) < u_thres p" for x
    using assms by (simp add: body_defs)
  have iter: "u ((loop_body p I ^^ n) s) < u_thres p" if "0 < n"
    using that step by (cases n) simp_all
  have run: "u s' < u_thres p" if T: "0 \<le> T" and r: "run_simulation p T I = Some (Inr s')"
  proof -
    define Inv where "Inv = (\<lambda>x::sim. t x = 0 \<or> u x < u_thres p)"
    have "Inv (init p)"
      by (simp add: Inv_def init_def)
    moreover have "Inv (loop_body p I x)" for x
      using step by (simp add: Inv_def)
    ultimately have "Inv s' \<and> \<not> t s' \<le> T"
      using simulate_invariant [of p T I "init p" s' Inv] r
      by (simp add: run_simulation_def)
    with T show ?thesis
      by (auto simp: Inv_def)
  qed
  have "last (u_i (loop_body p I s)) = u (euler_forward_step p I s)"
    by (simp add: body_defs)
  with step iter run show ?thesis
    by blast
qed

theorem below_threshold_at_step_boundary_witness:
  "u_reset p_ref < u_thres p_ref \<and>
   u (loop_body p_ref (1 / 10 ^ 6) (init p_ref)) < u_thres p_ref \<and>
   last (u_i (loop_body p_ref (1 / 10 ^ 6) (init p_ref))) = - 1 / 30 \<and>
   - 1 / 30 \<ge> u_thres p_ref \<and>
   u ((loop_body p_ref (1 / 10 ^ 6) ^^ 2) (init p_ref)) < u_thres p_ref \<and>
   run_simulation p_ref (2 / 10 ^ 5) (1 / 10 ^ 6) =
     Some (Inr \<lparr>t = 3 / 10 ^ 5, u = - 65 / 1000, t_i = [0, 1 / 10 ^ 5, 2 / 10 ^ 5],
       u_i = [- 1 / 30, - 1 / 30, - 1 / 30], t_spike = [0, 1 / 10 ^ 5, 2 / 10 ^ 5],
       n_spike = [n_id, n_id, n_id]\<rparr>) \<and>
   - 65 / 1000 < u_thres p_ref"
proof -
  have h: "u_reset p_ref < u_thres p_ref"
    by (simp add: p_ref_def)
  show ?thesis
    using h run_ref_three_steps
      below_threshold_at_step_boundary [OF h, of "1 / 10 ^ 6" "init p_ref" 2 "2 / 10 ^ 5"
        "\<lparr>t = 3 / 10 ^ 5, u = - 65 / 1000, t_i = [0, 1 / 10 ^ 5, 2 / 10 ^ 5],
       u_i = [- 1 / 30, - 1 / 30, - 1 / 30], t_spike = [0, 1 / 10 ^ 5, 2 / 10 ^ 5],
       n_spike = [n_id, n_id, n_id]\<rparr>"]
    by (simp add: p_ref_def init_def euler_forward_step_def du_dt_def)
qed

subsection \<open>The searches: when they return, and what\<close>

text \<open>A run raises only when \<open>tau_m\<close> is zero. The rheobase search returns after the first run
  that spikes, with the current already incremented once more.\<close>

lemma simulate_error:
  assumes "simulate p T I s = Some (Inl e)"
  shows "tau_m p = 0"
proof -
  define Q where "Q = (\<lambda>(p'::params) (T'::real) (I'::real) (x::sim) (y::error + sim).
     (\<exists>e. y = Inl e) \<longrightarrow> tau_m p' = 0)"
  have "Q p T I s (Inl e)"
    by (rule simulate.raw_induct [where P = Q, OF _ assms]) (auto simp: Q_def split: if_splits)
  then show ?thesis
    by (simp add: Q_def)
qed

lemma find_rheobase_first:
  assumes "\<And>j. j < k \<Longrightarrow> \<exists>x. run_simulation p T (I + real j * step) = Some (Inr x) \<and> t_spike x = []"
    and "run_simulation p T (I + real k * step) = Some (Inr s)" and "t_spike s \<noteq> []"
  shows "find_rheobase p T step I = Some (Inr (I + real (Suc k) * step, s))"
  using assms
proof (induction k arbitrary: I)
  case 0
  then show ?case
    by (subst find_rheobase.simps) simp
next
  case (Suc k)
  from Suc.prems(1) [of 0] obtain x where x: "run_simulation p T I = Some (Inr x)" "t_spike x = []"
    by auto
  have "find_rheobase p T step (I + step) = Some (Inr (I + step + real (Suc k) * step, s))"
  proof (rule Suc.IH)
    fix j assume "j < k"
    then have "Suc j < Suc k" by simp
    from Suc.prems(1) [OF this]
    show "\<exists>x. run_simulation p T (I + step + real j * step) = Some (Inr x) \<and> t_spike x = []"
      by (simp add: algebra_simps)
  next
    show "run_simulation p T (I + step + real k * step) = Some (Inr s)"
      using Suc.prems(2) by (simp add: algebra_simps)
  qed (rule Suc.prems(3))
  with x show ?case
    by (subst find_rheobase.simps) (simp add: algebra_simps)
qed

lemma find_rheobase_Some:
  assumes "find_rheobase p T step I = Some r"
  shows "(\<exists>k e. r = Inl e \<and> run_simulation p T (I + real k * step) = Some (Inl e)) \<or>
         (\<exists>k s. r = Inr (I + real (Suc k) * step, s) \<and>
                run_simulation p T (I + real k * step) = Some (Inr s) \<and> t_spike s \<noteq> [] \<and>
                (\<forall>j<k. \<exists>x. run_simulation p T (I + real j * step) = Some (Inr x) \<and> t_spike x = []))"
proof -
  define Q where "Q = (\<lambda>(p::params) (T::real) (step::real) (I::real) (r::error + real \<times> sim).
     (\<exists>k e. r = Inl e \<and> run_simulation p T (I + real k * step) = Some (Inl e)) \<or>
     (\<exists>k s. r = Inr (I + real (Suc k) * step, s) \<and>
            run_simulation p T (I + real k * step) = Some (Inr s) \<and> t_spike s \<noteq> [] \<and>
            (\<forall>j<k. \<exists>x. run_simulation p T (I + real j * step) = Some (Inr x) \<and> t_spike x = [])))"
  have "Q p T step I r"
  proof (rule find_rheobase.raw_induct [where P = Q, OF _ assms])
    fix f p T step I r
    assume IH: "\<And>p T step I r. f p T step I = Some r \<Longrightarrow> Q p T step I r"
      and eq: "Option.bind (run_simulation p T I) (\<lambda>r. case r of Inl e \<Rightarrow> Some (Inl e)
           | Inr s \<Rightarrow> if t_spike s = [] then f p T step (I + step)
               else Some (Inr (I + step, s))) = Some r"
    from eq obtain y where y: "run_simulation p T I = Some y"
      by (cases "run_simulation p T I") auto
    show "Q p T step I r"
    proof (cases y)
      case (Inl e)
      with y eq have "r = Inl e" by simp
      with y Inl have "r = Inl e \<and> run_simulation p T (I + real 0 * step) = Some (Inl e)"
        by simp
      then show ?thesis
        unfolding Q_def by blast
    next
      case (Inr s)
      show ?thesis
      proof (cases "t_spike s = []")
        case False
        with y Inr eq have "r = Inr (I + real (Suc 0) * step, s) \<and>
            run_simulation p T (I + real 0 * step) = Some (Inr s) \<and> t_spike s \<noteq> [] \<and>
            (\<forall>j<0. \<exists>x. run_simulation p T (I + real j * step) = Some (Inr x) \<and> t_spike x = [])"
          by simp
        then show ?thesis
          unfolding Q_def by blast
      next
        case True
        with y Inr eq have "f p T step (I + step) = Some r" by simp
        from IH [OF this] have q: "Q p T step (I + step) r" .
        have shift: "I + step + real k * step = I + real (Suc k) * step" for k
          by (simp add: algebra_simps)
        from q show ?thesis
          unfolding Q_def
        proof (elim disjE exE conjE)
          fix k e
          assume "r = Inl e" "run_simulation p T (I + step + real k * step) = Some (Inl e)"
          then have "r = Inl e \<and> run_simulation p T (I + real (Suc k) * step) = Some (Inl e)"
            by (simp add: shift)
          then show "(\<exists>k e. r = Inl e \<and> run_simulation p T (I + real k * step) = Some (Inl e)) \<or>
            (\<exists>k s. r = Inr (I + real (Suc k) * step, s) \<and>
              run_simulation p T (I + real k * step) = Some (Inr s) \<and> t_spike s \<noteq> [] \<and>
              (\<forall>j<k. \<exists>x. run_simulation p T (I + real j * step) = Some (Inr x) \<and> t_spike x = []))"
            by blast
        next
          fix k s'
          assume a: "r = Inr (I + step + real (Suc k) * step, s')"
            "run_simulation p T (I + step + real k * step) = Some (Inr s')" "t_spike s' \<noteq> []"
            "\<forall>j<k. \<exists>x. run_simulation p T (I + step + real j * step) = Some (Inr x) \<and> t_spike x = []"
          have "\<exists>x. run_simulation p T (I + real j * step) = Some (Inr x) \<and> t_spike x = []"
            if "j < Suc k" for j
          proof (cases j)
            case 0
            with y Inr True show ?thesis by simp
          next
            case (Suc i)
            with that a(4) show ?thesis by (simp add: shift)
          qed
          with a have "r = Inr (I + real (Suc (Suc k)) * step, s') \<and>
              run_simulation p T (I + real (Suc k) * step) = Some (Inr s') \<and> t_spike s' \<noteq> [] \<and>
              (\<forall>j<Suc k. \<exists>x. run_simulation p T (I + real j * step) = Some (Inr x) \<and> t_spike x = [])"
            using shift [of k] shift [of "Suc k"] by simp
          then show "(\<exists>k e. r = Inl e \<and> run_simulation p T (I + real k * step) = Some (Inl e)) \<or>
            (\<exists>k s. r = Inr (I + real (Suc k) * step, s) \<and>
              run_simulation p T (I + real k * step) = Some (Inr s) \<and> t_spike s \<noteq> [] \<and>
              (\<forall>j<k. \<exists>x. run_simulation p T (I + real j * step) = Some (Inr x) \<and> t_spike x = []))"
            by blast
        qed
      qed
    qed
  qed
  then show ?thesis
    by (simp add: Q_def)
qed

text \<open>The loop of Task 5 unrolls in the same way, and the duration search returns after
  the first of its runs that spikes.\<close>

lemmas body_5_defs = loop_body_5_def switch_off_def spike_condition_5_def timestep_completed_def
  store_u_def euler_forward_step_def du_dt_def

lemma t_loop_body_5: "t (loop_body_5 p index ts s) = t s + dt p"
  by (simp add: body_5_defs Let_def)

lemma steps_left_body_5:
  assumes "0 < dt p" and "t s \<le> T"
  shows "steps_left p T s = Suc (steps_left p T (loop_body_5 p index ts s))"
proof -
  have "steps_left p T (loop_body_5 p index ts s) = steps_left p T (s\<lparr>t := t s + dt p\<rparr>)"
    by (simp add: steps_left_def t_loop_body_5)
  moreover have "steps_left p T (loop_body p 0 (sim.truncate s)) = steps_left p T (s\<lparr>t := t s + dt p\<rparr>)"
    by (simp add: steps_left_def t_loop_body sim.truncate_def)
  moreover have "steps_left p T (sim.truncate s) = steps_left p T s"
    by (simp add: steps_left_def sim.truncate_def)
  moreover have "t (sim.truncate s) \<le> T"
    using assms by (simp add: sim.truncate_def)
  ultimately show ?thesis
    using steps_left_body [OF assms(1), of "sim.truncate s" T 0] by simp
qed

lemma simulate_5_unroll:
  assumes "0 < dt p" and "tau_m p \<noteq> 0"
  shows "simulate_5 p T index ts s =
           Some (Inr ((loop_body_5 p index ts ^^ steps_left p T s) s))"
proof (induction "steps_left p T s" arbitrary: s)
  case 0
  then have "\<not> t s \<le> T"
    by (simp add: steps_left_def split: if_splits)
  then show ?case
    using 0 by (subst simulate_5.simps) (simp add: steps_left_def)
next
  case (Suc n)
  then have le: "t s \<le> T"
    by (simp add: steps_left_def split: if_splits)
  from steps_left_body_5 [OF assms(1) le, of index ts] Suc(2)
  have n: "n = steps_left p T (loop_body_5 p index ts s)"
    by simp
  have "simulate_5 p T index ts s = simulate_5 p T index ts (loop_body_5 p index ts s)"
    using le assms by (subst simulate_5.simps) simp
  also have "\<dots> = Some (Inr ((loop_body_5 p index ts ^^ n) (loop_body_5 p index ts s)))"
    using Suc(1) [OF n] n by simp
  finally show ?case
    using Suc(2) [symmetric] by (simp add: funpow_swap1)
qed

lemma simulate_5_invariant:
  assumes "simulate_5 p T index ts s = Some (Inr s')" and "Inv s"
    and "\<And>x. Inv x \<Longrightarrow> t x \<le> T \<Longrightarrow> Inv (loop_body_5 p index ts x)"
  shows "Inv s' \<and> \<not> t s' \<le> T"
proof -
  define Q where "Q = (\<lambda>(p'::params) (T'::real) (i'::nat) (ts'::real) (x::stim) (y::error + stim).
     \<forall>x'. y = Inr x' \<longrightarrow> p' = p \<and> T' = T \<and> i' = index \<and> ts' = ts \<longrightarrow> Inv x \<longrightarrow>
       Inv x' \<and> \<not> t x' \<le> T)"
  have "Q p T index ts s (Inr s')"
  proof (rule simulate_5.raw_induct [where P = Q, OF _ assms(1)])
    fix f p' T' i' ts' x y
    assume IH: "\<And>p T i ts x y. f p T i ts x = Some y \<Longrightarrow> Q p T i ts x y"
      and eq: "(if t x \<le> T' then if tau_m p' = 0 then Some (Inl ZeroDivisionError)
                 else f p' T' i' ts' (loop_body_5 p' i' ts' x) else Some (Inr x)) = Some y"
    show "Q p' T' i' ts' x y"
    proof (cases "t x \<le> T'")
      case True
      show ?thesis
      proof (cases "tau_m p' = 0")
        case True
        with \<open>t x \<le> T'\<close> eq show ?thesis
          by (auto simp: Q_def)
      next
        case False
        with True eq have "f p' T' i' ts' (loop_body_5 p' i' ts' x) = Some y"
          by simp
        from IH [OF this] True assms(3) show ?thesis
          by (auto simp: Q_def)
      qed
    next
      case False
      with eq show ?thesis
        by (auto simp: Q_def)
    qed
  qed
  with assms(2) show ?thesis
    by (simp add: Q_def)
qed

lemma duration_run_returns:
  assumes "0 < dt p" and "tau_m p \<noteq> 0"
  shows "\<exists>x. duration_run p T index step I t0 ts k = Some (Inr x)"
proof (induction k arbitrary: I t0 ts)
  case 0
  show ?case
    by (simp add: simulate_5_unroll [OF assms])
next
  case (Suc k)
  show ?case
    using Suc [of _ "t0 + step"] by (simp add: simulate_5_unroll [OF assms])
qed

lemma search_duration_first:
  assumes "\<And>j. j < k \<Longrightarrow> \<exists>x. duration_run p T index step I t0 ts j = Some (Inr x) \<and> n_spike x = []"
    and "duration_run p T index step I t0 ts k = Some (Inr s)" and "n_spike s \<noteq> []"
  shows "search_duration p T index step I t0 ts = Some (Inr (t0 + real (Suc k) * step, s))"
  using assms
proof (induction k arbitrary: I t0 ts)
  case 0
  then show ?case
    by (subst search_duration.simps) simp
next
  case (Suc k)
  from Suc.prems(1) [of 0] obtain x
    where x: "simulate_5 p T index (t0 + step) (init_5 p I ts) = Some (Inr x)" "n_spike x = []"
    by auto
  have "search_duration p T index step (I_syn x) (t0 + step) (t_st x) =
          Some (Inr (t0 + step + real (Suc k) * step, s))"
  proof (rule Suc.IH)
    fix j assume "j < k"
    then have "Suc j < Suc k" by simp
    from Suc.prems(1) [OF this] x
    show "\<exists>y. duration_run p T index step (I_syn x) (t0 + step) (t_st x) j = Some (Inr y) \<and>
             n_spike y = []"
      by simp
  next
    show "duration_run p T index step (I_syn x) (t0 + step) (t_st x) k = Some (Inr s)"
      using Suc.prems(2) x by simp
  qed (rule Suc.prems(3))
  with x show ?case
    by (subst search_duration.simps) (simp add: algebra_simps)
qed

lemma search_duration_Some:
  assumes "search_duration p T index step I t0 ts = Some r" and "tau_m p \<noteq> 0"
  shows "\<exists>k s. duration_run p T index step I t0 ts k = Some (Inr s) \<and> n_spike s \<noteq> [] \<and>
           r = Inr (t0 + real (Suc k) * step, s)"
proof -
  define Q where "Q = (\<lambda>(p::params) (T::real) (index::nat) (step::real) (I::real) (t0::real)
       (ts::real list) (r::error + real \<times> stim).
     tau_m p \<noteq> 0 \<longrightarrow>
     (\<exists>k s. duration_run p T index step I t0 ts k = Some (Inr s) \<and> n_spike s \<noteq> [] \<and>
        r = Inr (t0 + real (Suc k) * step, s)))"
  have "Q p T index step I t0 ts r"
  proof (rule search_duration.raw_induct [where P = Q, OF _ assms(1)])
    fix f p T index step I t0 ts r
    assume IH: "\<And>p T index step I t0 ts r. f p T index step I t0 ts = Some r \<Longrightarrow>
        Q p T index step I t0 ts r"
      and eq: "Option.bind (simulate_5 p T index (t0 + step) (init_5 p I ts))
         (\<lambda>r. case r of Inl e \<Rightarrow> Some (Inl e)
           | Inr s \<Rightarrow> if length (n_spike s) = 0
               then f p T index step (I_syn s) (t0 + step) (t_st s)
               else Some (Inr (t0 + step, s))) = Some r"
    show "Q p T index step I t0 ts r"
      unfolding Q_def
    proof
      assume tau: "tau_m p \<noteq> 0"
      from eq obtain y where y: "simulate_5 p T index (t0 + step) (init_5 p I ts) = Some y"
        by (cases "simulate_5 p T index (t0 + step) (init_5 p I ts)") auto
      show "\<exists>k s. duration_run p T index step I t0 ts k = Some (Inr s) \<and> n_spike s \<noteq> [] \<and>
          r = Inr (t0 + real (Suc k) * step, s)"
      proof (cases y)
        case (Inl e)
        have "tau_m p = 0"
        proof -
          define Q5 where "Q5 = (\<lambda>(p'::params) (T'::real) (i'::nat) (ts'::real) (x::stim)
             (y::error + stim). (\<exists>e. y = Inl e) \<longrightarrow> tau_m p' = 0)"
          have "Q5 p T index (t0 + step) (init_5 p I ts) y"
            by (rule simulate_5.raw_induct [where P = Q5, OF _ y]) (auto simp: Q5_def split: if_splits)
          with Inl show ?thesis
            by (simp add: Q5_def)
        qed
        with tau show ?thesis by simp
      next
        case (Inr s)
        show ?thesis
        proof (cases "n_spike s = []")
          case False
          with y Inr eq have "duration_run p T index step I t0 ts 0 = Some (Inr s) \<and>
              n_spike s \<noteq> [] \<and> r = Inr (t0 + real (Suc 0) * step, s)"
            by simp
          then show ?thesis by blast
        next
          case True
          with y Inr eq have "f p T index step (I_syn s) (t0 + step) (t_st s) = Some r"
            by simp
          from IH [OF this] tau obtain k s'
            where k: "duration_run p T index step (I_syn s) (t0 + step) (t_st s) k = Some (Inr s')"
              "n_spike s' \<noteq> []" "r = Inr (t0 + step + real (Suc k) * step, s')"
            unfolding Q_def by blast
          have "t0 + step + real (Suc k) * step = t0 + real (Suc (Suc k)) * step"
            by (simp add: algebra_simps)
          with k y Inr have "duration_run p T index step I t0 ts (Suc k) = Some (Inr s') \<and>
              n_spike s' \<noteq> [] \<and> r = Inr (t0 + real (Suc (Suc k)) * step, s')"
            by simp
          then show ?thesis by blast
        qed
      qed
    qed
  qed
  with assms(2) show ?thesis
    by (simp add: Q_def)
qed

text \<open>Runs that cannot spike, and searches that therefore never return.\<close>

lemma euler_candidate:
  "v + du_dt p I v * dt p = (1 - dt p / tau_m p) * v + dt p / tau_m p * (u_rest p + R p * I)"
  by (simp add: du_dt_def algebra_simps add_divide_distrib diff_divide_distrib)

lemma no_spike_below:
  assumes run: "run_simulation p T I = Some (Inr s)"
    and a: "0 \<le> dt p / tau_m p" "dt p / tau_m p \<le> 1"
    and B: "u_rest p \<le> B" "u_rest p + R p * I \<le> B" "B < u_thres p"
  shows "t_spike s = []"
proof -
  define Inv where "Inv = (\<lambda>x::sim. u x \<le> B \<and> t_spike x = [])"
  have "Inv (init p)"
    using B by (simp add: Inv_def init_def)
  moreover have "Inv (loop_body p I x)" if "Inv x" for x
  proof -
    have "(1 - dt p / tau_m p) * u x \<le> (1 - dt p / tau_m p) * B"
      using that a by (intro mult_left_mono) (simp_all add: Inv_def)
    moreover have "dt p / tau_m p * (u_rest p + R p * I) \<le> dt p / tau_m p * B"
      using a B by (intro mult_left_mono) simp_all
    ultimately have "u x + du_dt p I (u x) * dt p \<le> B"
      unfolding euler_candidate by (simp add: algebra_simps)
    with B that show ?thesis
      by (simp add: Inv_def loop_body_def timestep_completed_def spike_condition_def store_u_def
          euler_forward_step_def)
  qed
  ultimately have "Inv s"
    using simulate_invariant [of p T I "init p" s Inv] run
    by (simp add: run_simulation_def)
  then show ?thesis
    by (simp add: Inv_def)
qed

lemma find_rheobase_None:
  assumes "tau_m p \<noteq> 0"
    and "\<And>k s. run_simulation p T (I + real k * step) = Some (Inr s) \<Longrightarrow> t_spike s = []"
  shows "find_rheobase p T step I = None"
proof (cases "find_rheobase p T step I")
  case (Some r)
  from find_rheobase_Some [OF Some] show ?thesis
  proof (elim disjE exE conjE)
    fix k e
    assume "run_simulation p T (I + real k * step) = Some (Inl e)"
    then have "tau_m p = 0"
      unfolding run_simulation_def by (rule simulate_error)
    with assms(1) show ?thesis by simp
  next
    fix k s
    assume "run_simulation p T (I + real k * step) = Some (Inr s)" "t_spike s \<noteq> []"
    with assms(2) show ?thesis by blast
  qed
qed simp

lemma duration_run_zero:
  assumes "u_rest p < u_thres p"
    and "duration_run p T index step 0 t0 ts k = Some (Inr s)"
  shows "n_spike s = []"
  using assms(2)
proof (induction k arbitrary: t0 ts)
  case 0
  define Inv where "Inv = (\<lambda>x::stim. I_syn x = 0 \<and> u x = u_rest p \<and> n_spike x = [])"
  have "Inv (init_5 p 0 ts)"
    by (simp add: Inv_def init_5_def)
  moreover have "Inv (loop_body_5 p index (t0 + step) x)" if "Inv x" for x
    using that assms(1) by (simp add: Inv_def body_5_defs Let_def)
  ultimately have "Inv s"
    using simulate_5_invariant [of p T index "t0 + step" "init_5 p 0 ts" s Inv] 0
    by simp
  then show ?case
    by (simp add: Inv_def)
next
  case (Suc k)
  define Inv where "Inv = (\<lambda>x::stim. I_syn x = 0 \<and> u x = u_rest p \<and> n_spike x = [])"
  from Suc.prems obtain x
    where x: "simulate_5 p T index (t0 + step) (init_5 p 0 ts) = Some (Inr x)"
      and rest: "duration_run p T index step (I_syn x) (t0 + step) (t_st x) k = Some (Inr s)"
    by (auto split: option.splits sum.splits)
  have "Inv (init_5 p 0 ts)"
    by (simp add: Inv_def init_5_def)
  moreover have "Inv (loop_body_5 p index (t0 + step) y)" if "Inv y" for y
    using that assms(1) by (simp add: Inv_def body_5_defs Let_def)
  ultimately have "Inv x"
    using simulate_5_invariant [of p T index "t0 + step" "init_5 p 0 ts" x Inv] x
    by simp
  then have "I_syn x = 0"
    by (simp add: Inv_def)
  with rest Suc.IH show ?case
    by simp
qed

lemma search_duration_zero:
  assumes "u_rest p < u_thres p" and "tau_m p \<noteq> 0"
  shows "search_duration p T index step 0 t0 ts = None"
proof (cases "search_duration p T index step 0 t0 ts")
  case (Some r)
  from search_duration_Some [OF Some assms(2)] duration_run_zero [OF assms(1)]
  show ?thesis by blast
qed simp

subsection \<open>Termination of the searches\<close>

lemma run_5_ref_spike:
  "simulate_5 p_ref (2 / 10 ^ 5) 0 (0 + 1 / 10 ^ 5) (init_5 p_ref (1 / 10 ^ 6) []) =
     Some (Inr \<lparr>t = 3 / 10 ^ 5, u = - 65 / 1000, t_i = [0, 1 / 10 ^ 5, 2 / 10 ^ 5],
       u_i = [- 1 / 30, - 65 / 1000, - 65 / 1000], t_spike = [0], n_spike = [n_id],
       I_syn = 0, t_st = [0]\<rparr>)"
  by (simp add: simulate_5.simps p_ref_def init_5_def body_5_defs Let_def)

text \<open>
  Claim C5, as the script has it. Neither search has an iteration ceiling, and neither has a
  result that says that the search gave up. With a positive timestep and a nonzero time
  constant every run returns, and then a search returns exactly when one of the runs it
  makes spikes: for the rheobase search a run at some candidate \<open>I + k * step_I\<close>, for the
  duration search one of the runs of its own sequence. When no run spikes the search never
  returns.
\<close>

theorem searches_return_iff_a_run_spikes:
  assumes "0 < dt p" and "tau_m p \<noteq> 0"
  shows "((\<exists>r. find_rheobase p T step_I I = Some r) \<longleftrightarrow>
            (\<exists>k s. run_simulation p T (I + real k * step_I) = Some (Inr s) \<and> t_spike s \<noteq> [])) \<and>
         ((\<exists>r. find_min_stimulus_duration p T index step_duration I ts = Some r) \<longleftrightarrow>
            (\<exists>k s. duration_run p T index step_duration I 0 ts k = Some (Inr s) \<and>
               n_spike s \<noteq> []))"
proof (intro conjI iffI)
  assume "\<exists>r. find_rheobase p T step_I I = Some r"
  then obtain r where r: "find_rheobase p T step_I I = Some r" ..
  from find_rheobase_Some [OF r]
  show "\<exists>k s. run_simulation p T (I + real k * step_I) = Some (Inr s) \<and> t_spike s \<noteq> []"
  proof (elim disjE exE conjE)
    fix k e
    assume "run_simulation p T (I + real k * step_I) = Some (Inl e)"
    then have "tau_m p = 0"
      unfolding run_simulation_def by (rule simulate_error)
    with assms(2) show ?thesis by simp
  next
    fix k s
    assume "run_simulation p T (I + real k * step_I) = Some (Inr s)" "t_spike s \<noteq> []"
    then show ?thesis by blast
  qed
next
  define P where "P = (\<lambda>k. \<exists>s. run_simulation p T (I + real k * step_I) = Some (Inr s) \<and>
      t_spike s \<noteq> [])"
  assume "\<exists>k s. run_simulation p T (I + real k * step_I) = Some (Inr s) \<and> t_spike s \<noteq> []"
  then have "\<exists>k. P k"
    by (simp add: P_def)
  then obtain k where k: "P k" "\<forall>j<k. \<not> P j"
    using exists_least_iff [of P] by blast
  from k(1) obtain s where s: "run_simulation p T (I + real k * step_I) = Some (Inr s)"
      "t_spike s \<noteq> []"
    by (auto simp: P_def)
  have "\<exists>x. run_simulation p T (I + real j * step_I) = Some (Inr x) \<and> t_spike x = []"
    if "j < k" for j
  proof -
    have "\<exists>x. run_simulation p T (I + real j * step_I) = Some (Inr x)"
      by (simp add: run_simulation_def simulate_unroll [OF assms])
    with k(2) that show ?thesis
      by (auto simp: P_def)
  qed
  from find_rheobase_first [OF this s]
  show "\<exists>r. find_rheobase p T step_I I = Some r"
    by blast
next
  assume "\<exists>r. find_min_stimulus_duration p T index step_duration I ts = Some r"
  then obtain r where "search_duration p T index step_duration I 0 ts = Some r"
    by (auto simp: find_min_stimulus_duration_def)
  from search_duration_Some [OF this assms(2)]
  show "\<exists>k s. duration_run p T index step_duration I 0 ts k = Some (Inr s) \<and> n_spike s \<noteq> []"
    by blast
next
  define P where "P = (\<lambda>k. \<exists>s. duration_run p T index step_duration I 0 ts k = Some (Inr s) \<and>
      n_spike s \<noteq> [])"
  assume "\<exists>k s. duration_run p T index step_duration I 0 ts k = Some (Inr s) \<and> n_spike s \<noteq> []"
  then have "\<exists>k. P k"
    by (simp add: P_def)
  then obtain k where k: "P k" "\<forall>j<k. \<not> P j"
    using exists_least_iff [of P] by blast
  from k(1) obtain s where s: "duration_run p T index step_duration I 0 ts k = Some (Inr s)"
      "n_spike s \<noteq> []"
    by (auto simp: P_def)
  have "\<exists>x. duration_run p T index step_duration I 0 ts j = Some (Inr x) \<and> n_spike x = []"
    if "j < k" for j
    using duration_run_returns [OF assms, of T index step_duration I 0 ts j] k(2) that
    by (auto simp: P_def)
  from search_duration_first [OF this s]
  show "\<exists>r. find_min_stimulus_duration p T index step_duration I ts = Some r"
    by (simp add: find_min_stimulus_duration_def)
qed

theorem searches_return_iff_a_run_spikes_witness:
  "0 < dt p_ref \<and> tau_m p_ref \<noteq> 0 \<and>
   (\<exists>r. find_rheobase p_ref (2 / 10 ^ 5) (1 / 10 ^ 6) (1 / 10 ^ 6) = Some r) \<and>
   (\<exists>r. find_min_stimulus_duration p_ref (2 / 10 ^ 5) 0 (1 / 10 ^ 5) (1 / 10 ^ 6) [] = Some r)"
proof -
  have h: "0 < dt p_ref" "tau_m p_ref \<noteq> 0"
    by (simp_all add: p_ref_def)
  have "run_simulation p_ref (2 / 10 ^ 5) (1 / 10 ^ 6 + real 0 * (1 / 10 ^ 6)) =
      Some (Inr \<lparr>t = 3 / 10 ^ 5, u = - 65 / 1000, t_i = [0, 1 / 10 ^ 5, 2 / 10 ^ 5],
       u_i = [- 1 / 30, - 1 / 30, - 1 / 30], t_spike = [0, 1 / 10 ^ 5, 2 / 10 ^ 5],
       n_spike = [n_id, n_id, n_id]\<rparr>)"
    using run_ref_three_steps by simp
  then have a: "\<exists>k s. run_simulation p_ref (2 / 10 ^ 5) (1 / 10 ^ 6 + real k * (1 / 10 ^ 6)) =
      Some (Inr s) \<and> t_spike s \<noteq> []"
    by (intro exI [of _ 0]) auto
  have "duration_run p_ref (2 / 10 ^ 5) 0 (1 / 10 ^ 5) (1 / 10 ^ 6) 0 [] 0 =
      Some (Inr \<lparr>t = 3 / 10 ^ 5, u = - 65 / 1000, t_i = [0, 1 / 10 ^ 5, 2 / 10 ^ 5],
       u_i = [- 1 / 30, - 65 / 1000, - 65 / 1000], t_spike = [0], n_spike = [n_id],
       I_syn = 0, t_st = [0]\<rparr>)"
    using run_5_ref_spike by simp
  then have b: "\<exists>k s. duration_run p_ref (2 / 10 ^ 5) 0 (1 / 10 ^ 5) (1 / 10 ^ 6) 0 [] k =
      Some (Inr s) \<and> n_spike s \<noteq> []"
    by (intro exI [of _ 0]) auto
  show ?thesis
    using h a b
      searches_return_iff_a_run_spikes [OF h, of "2 / 10 ^ 5" "1 / 10 ^ 6" "1 / 10 ^ 6" 0
        "1 / 10 ^ 5" "[]"]
    by blast
qed

text \<open>The claim as stated has every search return. With the script's parameters and horizons,
  the rheobase search from 50 pA with a step of -1 pA never returns, and neither does the
  duration search for a stimulus of amplitude zero.\<close>

theorem searches_without_ceiling_counterexample:
  "find_rheobase p_ref 1 (- 1 / 10 ^ 12) (50 / 10 ^ 12) = None \<and>
   find_min_stimulus_duration p_ref (15 / 100) 0 (1 / 10) 0 [] = None"
proof
  have tau: "tau_m p_ref \<noteq> 0"
    by (simp add: p_ref_def)
  show "find_rheobase p_ref 1 (- 1 / 10 ^ 12) (50 / 10 ^ 12) = None"
  proof (rule find_rheobase_None [OF tau])
    fix k s
    assume run: "run_simulation p_ref 1 (50 / 10 ^ 12 + real k * (- 1 / 10 ^ 12)) = Some (Inr s)"
    have "R p_ref * (50 / 10 ^ 12 + real k * (- 1 / 10 ^ 12)) \<le> R p_ref * (50 / 10 ^ 12)"
      by (intro mult_left_mono) (simp_all add: p_ref_def)
    then have "u_rest p_ref + R p_ref * (50 / 10 ^ 12 + real k * (- 1 / 10 ^ 12)) \<le> - 6 / 100"
      by (simp add: p_ref_def)
    then show "t_spike s = []"
      by (intro no_spike_below [OF run, of "- 6 / 100"]) (simp_all add: p_ref_def)
  qed
  show "find_min_stimulus_duration p_ref (15 / 100) 0 (1 / 10) 0 [] = None"
    unfolding find_min_stimulus_duration_def
    by (rule search_duration_zero) (simp_all add: p_ref_def)
qed

subsection \<open>The potential before the first spike\<close>

text \<open>As long as no spike has occurred, \<open>n\<close> steps from rest leave the potential at
  \<open>u_rest + R * I * (1 - (1 - dt / tau_m) ^ n)\<close>; once this value reaches the threshold within
  the run, the run has a spike.\<close>

lemma t_spike_grows: "length (t_spike s) \<le> length (t_spike (loop_body p I s))"
  by (simp add: body_defs)

lemma t_spike_funpow_grows:
  "m \<le> n \<Longrightarrow> length (t_spike ((loop_body p I ^^ m) s)) \<le> length (t_spike ((loop_body p I ^^ n) s))"
proof (induction n)
  case 0
  then show ?case by simp
next
  case (Suc n)
  show ?case
  proof (cases "m = Suc n")
    case True
    then show ?thesis by simp
  next
    case False
    with Suc.prems have "m \<le> n" by simp
    from Suc.IH [OF this] t_spike_grows [of "(loop_body p I ^^ n) s" p I]
    show ?thesis by simp
  qed
qed

lemma no_spike_yet:
  assumes "t_spike ((loop_body p I ^^ n) s) = []" and "m \<le> n"
  shows "t_spike ((loop_body p I ^^ m) s) = []"
  using t_spike_funpow_grows [OF assms(2), of p I s] assms(1) by simp

lemma before_first_spike:
  assumes "t_spike ((loop_body p I ^^ n) (init p)) = []"
  shows "u ((loop_body p I ^^ n) (init p)) =
           u_rest p + R p * I * (1 - (1 - dt p / tau_m p) ^ n)"
  using assms
proof (induction n)
  case 0
  then show ?case by (simp add: init_def)
next
  case (Suc n)
  define x where "x = (loop_body p I ^^ n) (init p)"
  have e: "t_spike (loop_body p I x) = []"
    using Suc.prems by (simp add: x_def)
  then have "t_spike x = []"
    using t_spike_grows [of x p I] by simp
  then have ux: "u x = u_rest p + R p * I * (1 - (1 - dt p / tau_m p) ^ n)"
    using Suc.IH by (simp add: x_def)
  from e have "u (loop_body p I x) = u x + du_dt p I (u x) * dt p"
    by (simp add: loop_body_def timestep_completed_def spike_condition_def store_u_def
        euler_forward_step_def split: if_splits)
  also have "\<dots> = u_rest p + R p * I * (1 - (1 - dt p / tau_m p) ^ Suc n)"
    unfolding euler_candidate ux by (simp add: algebra_simps)
  finally show ?case
    by (simp add: x_def)
qed

lemma spike_once_reached:
  assumes "u_thres p \<le> u_rest p + R p * I * (1 - (1 - dt p / tau_m p) ^ Suc n)"
    and "Suc n \<le> N"
  shows "t_spike ((loop_body p I ^^ N) (init p)) \<noteq> []"
proof
  assume "t_spike ((loop_body p I ^^ N) (init p)) = []"
  from no_spike_yet [OF this assms(2)] have e: "t_spike ((loop_body p I ^^ Suc n) (init p)) = []" .
  define x where "x = (loop_body p I ^^ n) (init p)"
  from e have "t_spike (loop_body p I x) = []"
    by (simp add: x_def)
  then have "u x + du_dt p I (u x) * dt p < u_thres p" and "t_spike x = []"
    by (simp_all add: loop_body_def timestep_completed_def spike_condition_def store_u_def
        euler_forward_step_def split: if_splits)
  moreover have "u (loop_body p I x) = u_rest p + R p * I * (1 - (1 - dt p / tau_m p) ^ Suc n)"
    using before_first_spike [OF e] by (simp add: x_def)
  moreover have "u (loop_body p I x) = u x + du_dt p I (u x) * dt p"
    using \<open>t_spike (loop_body p I x) = []\<close>
    by (simp add: loop_body_def timestep_completed_def spike_condition_def store_u_def
        euler_forward_step_def split: if_splits)
  ultimately show False
    using assms(1) by simp
qed

lemma decay_half:
  fixes q :: real
  assumes "q = 2999 / 3000"
  shows "q ^ 3000 \<le> 1 / 2"
proof -
  have "1 + real 3000 * (1 / 2999) \<le> (1 + 1 / 2999) ^ 3000"
    by (rule Bernoulli_inequality) simp
  then have "2 \<le> (1 + 1 / 2999 :: real) ^ 3000"
    by simp
  moreover have "(1 + 1 / 2999 :: real) = 1 / q"
    unfolding assms by simp
  ultimately have "2 \<le> (1 / q) ^ 3000"
    by simp
  then have "2 \<le> 1 / q ^ 3000"
    by (simp add: power_one_over)
  moreover have "0 < q"
    unfolding assms by simp
  then have "0 < q ^ 3000"
    by (rule zero_less_power)
  ultimately show ?thesis
    by (simp add: field_simps)
qed

subsection \<open>Task 2 with the script's numbers\<close>

lemma steps_ref: "steps_left p_ref 1 (init p_ref) = 100001"
  by (simp add: steps_left_def p_ref_def init_def)

lemma run_ref:
  "run_simulation p_ref 1 I = Some (Inr ((loop_body p_ref I ^^ 100001) (init p_ref)))"
proof -
  have "0 < dt p_ref" "tau_m p_ref \<noteq> 0"
    by (simp_all add: p_ref_def)
  from simulate_unroll [OF this, of 1 I "init p_ref"] show ?thesis
    by (simp only: run_simulation_def steps_ref)
qed

lemma q_ref: "1 - dt p_ref / tau_m p_ref = 2999 / 3000"
  by (simp add: p_ref_def)

lemma spike_at_158: "t_spike ((loop_body p_ref (158 / 10 ^ 12) ^^ 100001) (init p_ref)) \<noteq> []"
proof (rule spike_once_reached [where n = 32999])
  define q :: real where "q = 2999 / 3000"
  have "q ^ 3000 \<le> 1 / 2"
    by (rule decay_half) (simp add: q_def)
  moreover have "0 \<le> q ^ 3000"
    by (simp add: q_def)
  ultimately have "(q ^ 3000) ^ 11 \<le> (1 / 2) ^ 11"
    by (rule power_mono)
  moreover have "(q ^ 3000) ^ 11 = q ^ 33000"
    by (simp add: power_mult [symmetric])
  moreover have "(1 / 2 :: real) ^ 11 = 1 / 2048"
    by (simp add: power_one_over)
  ultimately have "q ^ 33000 \<le> 1 / 2048"
    by simp
  then have "15 / 1000 \<le> 1501 / 100000 * (1 - q ^ 33000)"
    by simp
  moreover have "Suc 32999 = 33000"
    by simp
  moreover have "R p_ref * (158 / 10 ^ 12) = 1501 / 100000"
    by (simp add: p_ref_def)
  moreover have "u_thres p_ref = u_rest p_ref + 15 / 1000"
    by (simp add: p_ref_def)
  ultimately show "u_thres p_ref \<le> u_rest p_ref +
      R p_ref * (158 / 10 ^ 12) * (1 - (1 - dt p_ref / tau_m p_ref) ^ Suc 32999)"
    by (simp only: q_ref q_def [symmetric])
  show "Suc 32999 \<le> 100001"
    by simp
qed

lemma no_spike_up_to_157:
  assumes "I \<le> 157 / 10 ^ 12" and "run_simulation p_ref 1 I = Some (Inr s)"
  shows "t_spike s = []"
proof -
  have "R p_ref * I \<le> R p_ref * (157 / 10 ^ 12)"
    using assms(1) by (intro mult_left_mono) (simp_all add: p_ref_def)
  then have "u_rest p_ref + R p_ref * I \<le> - 50085 / 10 ^ 6"
    by (simp add: p_ref_def)
  then show ?thesis
    by (intro no_spike_below [OF assms(2), of "- 50085 / 10 ^ 6"]) (simp_all add: p_ref_def)
qed

text \<open>A short instance of the late result of the rheobase search: with the script's neuron, a
  horizon of 20 us and candidates 0, 1 uA, 2 uA, ..., the run at 0 has no spike and the run
  at 1 uA has three; the search returns 2 uA.\<close>

lemma rheobase_short_instance:
  "find_rheobase p_ref (2 / 10 ^ 5) (1 / 10 ^ 6) 0 =
     Some (Inr (2 / 10 ^ 6,
       \<lparr>t = 3 / 10 ^ 5, u = - 65 / 1000, t_i = [0, 1 / 10 ^ 5, 2 / 10 ^ 5],
        u_i = [- 1 / 30, - 1 / 30, - 1 / 30], t_spike = [0, 1 / 10 ^ 5, 2 / 10 ^ 5],
        n_spike = [n_id, n_id, n_id]\<rparr>)) \<and>
   spike_count p_ref (2 / 10 ^ 5) 0 = Some 0 \<and>
   spike_count p_ref (2 / 10 ^ 5) (1 / 10 ^ 6) = Some 3"
proof -
  have zero: "run_simulation p_ref (2 / 10 ^ 5) 0 =
      Some (Inr \<lparr>t = 3 / 10 ^ 5, u = - 65 / 1000, t_i = [0, 1 / 10 ^ 5, 2 / 10 ^ 5],
        u_i = [- 65 / 1000, - 65 / 1000, - 65 / 1000], t_spike = [], n_spike = []\<rparr>)"
    by (simp add: run_simulation_def simulate.simps p_ref_def init_def body_defs)
  have "find_rheobase p_ref (2 / 10 ^ 5) (1 / 10 ^ 6) 0 =
      find_rheobase p_ref (2 / 10 ^ 5) (1 / 10 ^ 6) (0 + 1 / 10 ^ 6)"
    using zero by (subst find_rheobase.simps) simp
  also have "\<dots> = Some (Inr (2 / 10 ^ 6,
       \<lparr>t = 3 / 10 ^ 5, u = - 65 / 1000, t_i = [0, 1 / 10 ^ 5, 2 / 10 ^ 5],
        u_i = [- 1 / 30, - 1 / 30, - 1 / 30], t_spike = [0, 1 / 10 ^ 5, 2 / 10 ^ 5],
        n_spike = [n_id, n_id, n_id]\<rparr>))"
    using run_ref_three_steps by (subst find_rheobase.simps) simp
  finally show ?thesis
    using zero run_ref_three_steps by (simp add: spike_count_def)
qed

text \<open>
  Claim C2 asks for the first spiking candidate as the result. The script increments
  \<open>I_syn\<close> after every run, also after the one that spiked, and prints it after the loop. With
  the script's own numbers (from 50 pA in steps of 1 pA, horizon 1 s) the run at 157 pA has no
  spike and the run at 158 pA has one, so 158 pA is the first spiking candidate; the search
  returns 159 pA, together with the state of the run at 158 pA.
\<close>

theorem script_rheobase_is_one_step_late:
  "\<exists>s. find_rheobase p_ref 1 (1 / 10 ^ 12) (50 / 10 ^ 12) = Some (Inr (159 / 10 ^ 12, s)) \<and>
       run_simulation p_ref 1 (158 / 10 ^ 12) = Some (Inr s) \<and> t_spike s \<noteq> [] \<and>
       spike_count p_ref 1 (157 / 10 ^ 12) = Some 0"
proof -
  define s where "s = (loop_body p_ref (158 / 10 ^ 12) ^^ 100001) (init p_ref)"
  have run: "run_simulation p_ref 1 (50 / 10 ^ 12 + real 108 * (1 / 10 ^ 12)) = Some (Inr s)"
    unfolding s_def by (simp add: run_ref)
  have spike: "t_spike s \<noteq> []"
    unfolding s_def by (rule spike_at_158)
  have before: "\<exists>x. run_simulation p_ref 1 (50 / 10 ^ 12 + real j * (1 / 10 ^ 12)) = Some (Inr x) \<and>
      t_spike x = []" if "j < 108" for j
  proof -
    from that have "real j \<le> 107"
      by simp
    then have "50 / 10 ^ 12 + real j * (1 / 10 ^ 12) \<le> (157 / 10 ^ 12 :: real)"
      by simp
    from no_spike_up_to_157 [OF this] run_ref [of "50 / 10 ^ 12 + real j * (1 / 10 ^ 12)"]
    show ?thesis by blast
  qed
  from find_rheobase_first [OF before run spike]
  have "find_rheobase p_ref 1 (1 / 10 ^ 12) (50 / 10 ^ 12) = Some (Inr (159 / 10 ^ 12, s))"
    by simp
  moreover have "run_simulation p_ref 1 (158 / 10 ^ 12) = Some (Inr s)"
    using run by simp
  moreover have "spike_count p_ref 1 (157 / 10 ^ 12) = Some 0"
    using no_spike_up_to_157 [of "157 / 10 ^ 12"] run_ref [of "157 / 10 ^ 12"]
    by (simp add: spike_count_def)
  ultimately show ?thesis
    using spike by blast
qed

subsection \<open>Task 5: the stimulus and the reported duration\<close>

lemma loop_body_5_current:
  "loop_body_5 p index ts s =
     timestep_completed p (spike_condition_5 p index (store_u
       (euler_forward_step p (current_used ts s) (switch_off ts s))))"
  by (simp add: loop_body_5_def current_used_def Let_def)

text \<open>Inside one run that starts with \<open>I_syn = I\<close> and has a timestep that is not negative,
  the current used in every timestep is the bounded profile at the time of the step.\<close>

lemma stimulus_within_one_run:
  assumes "0 \<le> dt p"
  shows "current_used ts ((loop_body_5 p index ts ^^ n) (init_5 p I I_ts)) =
           bounded_profile I ts (t ((loop_body_5 p index ts ^^ n) (init_5 p I I_ts)))"
proof -
  have "t x < ts \<longrightarrow> I_syn x = I" if "x = (loop_body_5 p index ts ^^ n) (init_5 p I I_ts)" for x
    using that
  proof (induction n arbitrary: x)
    case 0
    then show ?case by (simp add: init_5_def)
  next
    case (Suc n)
    define y where "y = (loop_body_5 p index ts ^^ n) (init_5 p I I_ts)"
    have y: "t y < ts \<longrightarrow> I_syn y = I"
      using Suc.IH [of y] by (simp add: y_def)
    have x: "x = loop_body_5 p index ts y"
      using Suc.prems by (simp add: y_def)
    show ?case
      using y assms unfolding x by (auto simp: body_5_defs Let_def)
  qed
  then show ?thesis
    by (simp add: current_used_def switch_off_def bounded_profile_def)
qed

text \<open>What the duration search records (\<open>t_st.append(t)\<close>) is the time of the first spike,
  not the cutoff. A short instance: with the script's neuron, 1 uA, increments of 10 us and a
  horizon of 20 us the search stops at the cutoff 10 us, and the time it has recorded is 0.\<close>

lemma duration_search_short_instance:
  "find_min_stimulus_duration p_ref (2 / 10 ^ 5) 0 (1 / 10 ^ 5) (1 / 10 ^ 6) [] =
     Some (Inr (1 / 10 ^ 5,
       \<lparr>t = 3 / 10 ^ 5, u = - 65 / 1000, t_i = [0, 1 / 10 ^ 5, 2 / 10 ^ 5],
        u_i = [- 1 / 30, - 65 / 1000, - 65 / 1000], t_spike = [0], n_spike = [n_id],
        I_syn = 0, t_st = [0]\<rparr>))"
  unfolding find_min_stimulus_duration_def
  using run_5_ref_spike by (subst search_duration.simps) (simp add: n_id_def)

lemma first_run_no_spike:
  "\<exists>s. simulate_5 p_ref (2 / 10 ^ 5) 0 (0 + 1 / 10 ^ 5) (init_5 p_ref (3 / 10 ^ 7) []) = Some (Inr s) \<and>
       n_spike s = [] \<and> I_syn s = 0 \<and> t_st s = []"
  by (simp add: simulate_5.simps p_ref_def init_5_def body_5_defs Let_def)

lemma fresh_run_spikes:
  "\<exists>s. simulate_5 p_ref (2 / 10 ^ 5) 0 (2 / 10 ^ 5) (init_5 p_ref (3 / 10 ^ 7) []) = Some (Inr s) \<and>
       t_spike s = [1 / 10 ^ 5]"
  by (simp add: simulate_5.simps p_ref_def init_5_def body_5_defs Let_def)

text \<open>The assignment \<open>I_syn = 0\<close> outlives the run that made it. A short instance: with the
  script's neuron, 0.3 uA, increments of 10 us and a horizon of 20 us, the first run of the
  search (cutoff 10 us) has no spike and leaves \<open>I_syn = 0\<close>; the next run (cutoff 20 us)
  integrates with the current 0 at \<open>t = 0\<close>, where the bounded profile is 0.3 uA; a run with the
  cutoff 20 us that starts from 0.3 uA spikes at 10 us, but the search never returns.\<close>

lemma stimulus_short_instance:
  "(\<exists>s. simulate_5 p_ref (2 / 10 ^ 5) 0 (1 / 10 ^ 5) (init_5 p_ref (3 / 10 ^ 7) []) = Some (Inr s) \<and>
        n_spike s = [] \<and> I_syn s = 0 \<and> t_st s = []) \<and>
   current_used (2 / 10 ^ 5) (init_5 p_ref 0 []) = 0 \<and>
   bounded_profile (3 / 10 ^ 7) (2 / 10 ^ 5) 0 = 3 / 10 ^ 7 \<and>
   (\<exists>s. simulate_5 p_ref (2 / 10 ^ 5) 0 (2 / 10 ^ 5) (init_5 p_ref (3 / 10 ^ 7) []) = Some (Inr s) \<and>
        t_spike s = [1 / 10 ^ 5]) \<and>
   find_min_stimulus_duration p_ref (2 / 10 ^ 5) 0 (1 / 10 ^ 5) (3 / 10 ^ 7) [] = None"
proof -
  from first_run_no_spike obtain s
    where s: "simulate_5 p_ref (2 / 10 ^ 5) 0 (0 + 1 / 10 ^ 5) (init_5 p_ref (3 / 10 ^ 7) []) = Some (Inr s)"
      "n_spike s = []" "I_syn s = 0" "t_st s = []"
    by blast
  have "search_duration p_ref (2 / 10 ^ 5) 0 (1 / 10 ^ 5) 0 (0 + 1 / 10 ^ 5) [] = None"
    by (rule search_duration_zero) (simp_all add: p_ref_def)
  with s have "find_min_stimulus_duration p_ref (2 / 10 ^ 5) 0 (1 / 10 ^ 5) (3 / 10 ^ 7) [] = None"
    unfolding find_min_stimulus_duration_def
    by (subst search_duration.simps) simp
  moreover have "current_used (2 / 10 ^ 5) (init_5 p_ref 0 []) = 0"
    by (simp add: current_used_def switch_off_def init_5_def)
  moreover have "bounded_profile (3 / 10 ^ 7) (2 / 10 ^ 5) 0 = 3 / 10 ^ 7"
    by (simp add: bounded_profile_def)
  ultimately show ?thesis
    using first_run_no_spike fresh_run_spikes by simp
qed

subsection \<open>The spike count grows with the current\<close>

text \<open>One timestep in closed form, and two runs in lockstep.\<close>

lemma loop_body_u:
  "u (loop_body p I x) =
     (if u_thres p \<le> (1 - dt p / tau_m p) * u x + dt p / tau_m p * (u_rest p + R p * I)
      then u_reset p
      else (1 - dt p / tau_m p) * u x + dt p / tau_m p * (u_rest p + R p * I))"
  by (simp add: loop_body_def timestep_completed_def spike_condition_def store_u_def
      euler_forward_step_def euler_candidate)

lemma loop_body_count:
  "length (t_spike (loop_body p I x)) =
     (if u_thres p \<le> (1 - dt p / tau_m p) * u x + dt p / tau_m p * (u_rest p + R p * I)
      then Suc (length (t_spike x))
      else length (t_spike x))"
  by (simp add: loop_body_def timestep_completed_def spike_condition_def store_u_def
      euler_forward_step_def euler_candidate)

lemma behind_step:
  assumes a: "0 < dt p / tau_m p" "dt p / tau_m p \<le> 1"
    and R: "0 \<le> R p" and I: "I1 \<le> I2" and reset: "u_reset p \<le> u_thres p"
    and b: "behind p I2 x y"
  shows "behind p I2 (loop_body p I1 x) (loop_body p I2 y)"
proof -
  define a where "a = dt p / tau_m p"
  define c1 where "c1 = u_rest p + R p * I1"
  define c2 where "c2 = u_rest p + R p * I2"
  define v1 where "v1 = (1 - a) * u x + a * c1"
  define v2 where "v2 = (1 - a) * u y + a * c2"
  have a0: "0 < a" and a1: "0 \<le> 1 - a"
    using a by (simp_all add: a_def)
  have c: "c1 \<le> c2"
    using R I by (simp add: c1_def c2_def mult_left_mono)
  have f1: "v1 \<le> v2" if "u x \<le> u y"
  proof -
    have "(1 - a) * u x \<le> (1 - a) * u y"
      using that a1 by (rule mult_left_mono)
    moreover have "a * c1 \<le> a * c2"
      using c a0 by (simp add: mult_left_mono)
    ultimately show ?thesis
      by (simp add: v1_def v2_def)
  qed
  have f2: "v1 < u_thres p" if "u x \<le> u_thres p" "c2 < u_reset p"
  proof -
    have "(1 - a) * u x \<le> (1 - a) * u_thres p"
      using that(1) a1 by (rule mult_left_mono)
    moreover have "c1 < u_thres p"
      using c that(2) reset by simp
    then have "a * c1 < a * u_thres p"
      using a0 by simp
    ultimately have "v1 < (1 - a) * u_thres p + a * u_thres p"
      by (simp add: v1_def)
    then show ?thesis
      by (simp add: algebra_simps)
  qed
  have f3: "u_reset p \<le> v2" if "u_reset p \<le> c2" "u_reset p \<le> u y"
  proof -
    have "(1 - a) * u_reset p \<le> (1 - a) * u y"
      using that(2) a1 by (rule mult_left_mono)
    moreover have "a * u_reset p \<le> a * c2"
      using that(1) a0 by simp
    ultimately have "(1 - a) * u_reset p + a * u_reset p \<le> v2"
      by (simp add: v2_def)
    then show ?thesis
      by (simp add: algebra_simps)
  qed
  have ux: "u (loop_body p I1 x) = (if u_thres p \<le> v1 then u_reset p else v1)"
    and nx: "length (t_spike (loop_body p I1 x)) =
      (if u_thres p \<le> v1 then Suc (length (t_spike x)) else length (t_spike x))"
    and uy: "u (loop_body p I2 y) = (if u_thres p \<le> v2 then u_reset p else v2)"
    and ny: "length (t_spike (loop_body p I2 y)) =
      (if u_thres p \<le> v2 then Suc (length (t_spike y)) else length (t_spike y))"
    by (simp_all add: loop_body_u loop_body_count v1_def v2_def a_def c1_def c2_def)
  from b consider
    (less) "length (t_spike x) < length (t_spike y)" "u x \<le> u_thres p"
      "u_reset p \<le> c2 \<longrightarrow> u_reset p \<le> u y"
    | (eq) "length (t_spike x) = length (t_spike y)" "u x \<le> u y"
    by (auto simp: behind_def c2_def)
  then show ?thesis
  proof cases
    case less
    have "u_reset p \<le> c2 \<or> c2 < u_reset p"
      by linarith
    then show ?thesis
    proof
      assume r: "u_reset p \<le> c2"
      with less(3) have "u_reset p \<le> u y" by simp
      from f3 [OF r this] less reset r show ?thesis
        unfolding behind_def ux nx uy ny c2_def [symmetric]
        by (auto split: if_splits)
    next
      assume r: "c2 < u_reset p"
      from f2 [OF less(2) r] less reset r show ?thesis
        unfolding behind_def ux nx uy ny c2_def [symmetric]
        by (auto split: if_splits)
    qed
  next
    case eq
    from f1 [OF eq(2)] eq reset show ?thesis
      unfolding behind_def ux nx uy ny c2_def [symmetric]
      by (auto split: if_splits)
  qed
qed

lemma behind_funpow:
  assumes a: "0 < dt p / tau_m p" "dt p / tau_m p \<le> 1"
    and R: "0 \<le> R p" and I: "I1 \<le> I2" and reset: "u_reset p \<le> u_thres p"
  shows "behind p I2 ((loop_body p I1 ^^ n) (init p)) ((loop_body p I2 ^^ n) (init p))"
proof (induction n)
  case 0
  show ?case by (simp add: behind_def)
next
  case (Suc n)
  from behind_step [OF assms Suc] show ?case by simp
qed

text \<open>
  In exact arithmetic the count is monotone for every horizon and all currents, provided
  the Euler step is stable (\<open>0 < dt \<le> tau_m\<close>), \<open>R \<ge> 0\<close> and \<open>u_reset \<le> u_thres\<close>: both runs
  return, and the run with the larger current has at least as many spikes. This is a
  property of the loop over the real numbers; rounding is not part of the model.
\<close>

lemma spike_count_monotone_exact:
  assumes "0 < dt p" and "dt p \<le> tau_m p" and "0 \<le> R p" and "u_reset p \<le> u_thres p"
    and "I1 \<le> I2"
  shows "\<exists>n1 n2. spike_count p T I1 = Some n1 \<and> spike_count p T I2 = Some n2 \<and> n1 \<le> n2"
proof -
  have tau: "0 < tau_m p"
    using assms(1,2) by simp
  then have a: "0 < dt p / tau_m p" "dt p / tau_m p \<le> 1"
    using assms(1,2) by simp_all
  define n where "n = steps_left p T (init p)"
  have run: "run_simulation p T I = Some (Inr ((loop_body p I ^^ n) (init p)))" for I
    using simulate_unroll [OF assms(1), of T I "init p"] tau
    by (simp add: run_simulation_def n_def)
  from behind_funpow [OF a assms(3) assms(5) assms(4), of n]
  have "length (t_spike ((loop_body p I1 ^^ n) (init p))) \<le>
        length (t_spike ((loop_body p I2 ^^ n) (init p)))"
    by (auto simp: behind_def)
  then show ?thesis
    by (simp add: spike_count_def run)
qed

text \<open>
  Claim C9, as amended. Task 4 sweeps the current over \<open>I_syn = i * 10 ** (-12)\<close> for
  \<open>i = 0, 1, ..., 600\<close>, each run with the script's parameters and the horizon 1. These
  parameters satisfy the bound \<open>0 < dt \<le> tau_m\<close>, with \<open>R \<ge> 0\<close> and \<open>u_reset \<le> u_thres\<close>, and
  over the swept range the spike count does not decrease when the current grows: for
  \<open>i \<le> j \<le> 600\<close> both runs return, and the run at \<open>j\<close> pA has at least as many spikes as the
  run at \<open>i\<close> pA.
\<close>

theorem sweep_spike_count_monotone:
  assumes "i \<le> j" and "j \<le> 600"
  shows "0 < dt p_ref \<and> dt p_ref \<le> tau_m p_ref \<and> 0 \<le> R p_ref \<and> u_reset p_ref \<le> u_thres p_ref \<and>
    (\<exists>n1 n2. spike_count p_ref 1 (real i / 10 ^ 12) = Some n1 \<and>
       spike_count p_ref 1 (real j / 10 ^ 12) = Some n2 \<and> n1 \<le> n2)"
proof -
  have h: "0 < dt p_ref" "dt p_ref \<le> tau_m p_ref" "0 \<le> R p_ref" "u_reset p_ref \<le> u_thres p_ref"
    by (simp_all add: p_ref_def)
  have "real i / 10 ^ 12 \<le> real j / 10 ^ 12"
    using assms(1) by (simp add: divide_right_mono)
  from spike_count_monotone_exact [OF h this, of 1] h show ?thesis
    by blast
qed

theorem sweep_spike_count_monotone_witness:
  "(200 :: nat) \<le> 250 \<and> (250 :: nat) \<le> 600 \<and>
   0 < dt p_ref \<and> dt p_ref \<le> tau_m p_ref \<and> 0 \<le> R p_ref \<and> u_reset p_ref \<le> u_thres p_ref \<and>
   (\<exists>n1 n2. spike_count p_ref 1 (real (200 :: nat) / 10 ^ 12) = Some n1 \<and>
      spike_count p_ref 1 (real (250 :: nat) / 10 ^ 12) = Some n2 \<and> n1 \<le> n2)"
  using sweep_spike_count_monotone [of 200 250] by simp

text \<open>
  Claim C9, as stated, puts no bound on the timestep, and without one it fails. The
  parameters \<open>p_coarse\<close> are valid (\<open>dt > 0\<close>, \<open>tau_m > 0\<close>, \<open>R > 0\<close>, \<open>u_reset \<le> u_thres\<close>) but
  have \<open>dt = 3 * tau_m\<close>, so that an Euler step overshoots. With the horizon 12 (five
  timesteps) the run at the current \<open>1 / 2\<close> has three spikes and the run at the larger
  current \<open>9 / 10\<close> has one.
\<close>

theorem spike_count_not_monotone_counterexample:
  "0 < dt p_coarse \<and> 0 < tau_m p_coarse \<and> 0 < R p_coarse \<and> u_reset p_coarse \<le> u_thres p_coarse \<and>
   (1 / 2 :: real) \<le> 9 / 10 \<and>
   spike_count p_coarse 12 (1 / 2) = Some 3 \<and> spike_count p_coarse 12 (9 / 10) = Some 1"
  by (simp add: spike_count_def run_simulation_def simulate.simps p_coarse_def init_def body_defs)

subsection \<open>Thirty-three spikes at 250 pA\<close>

text \<open>Bounds on powers by repeated squaring with rational enclosures; they place
  \<open>(2999 / 3000) ^ 2995\<close> above and \<open>(2999 / 3000) ^ 2996\<close> below \<open>7 / 19\<close>.\<close>

lemma pow_lower_sq:
  fixes x :: real
  assumes "l \<le> x ^ n" and "0 \<le> l" and "lo \<le> l * l"
  shows "lo \<le> x ^ (2 * n)"
proof -
  have "l * l \<le> x ^ n * x ^ n"
    using assms(1,2) by (intro mult_mono) simp_all
  also have "\<dots> = x ^ (2 * n)"
    by (simp add: power_add [symmetric] mult_2)
  finally show ?thesis
    using assms(3) by simp
qed

lemma pow_lower_mul:
  fixes x :: real
  assumes "a \<le> x ^ m" and "b \<le> x ^ n" and "0 \<le> a" and "0 \<le> b" and "c \<le> a * b"
  shows "c \<le> x ^ (m + n)"
proof -
  have "a * b \<le> x ^ m * x ^ n"
    using assms(1-4) by (intro mult_mono) simp_all
  then show ?thesis
    using assms(5) by (simp add: power_add)
qed

lemma pow_upper_sq:
  fixes x :: real
  assumes "x ^ n \<le> h" and "0 \<le> x" and "h * h \<le> hi"
  shows "x ^ (2 * n) \<le> hi"
proof -
  have "0 \<le> x ^ n"
    using assms(2) by simp
  then have "x ^ n * x ^ n \<le> h * h"
    using assms(1) by (intro mult_mono) simp_all
  moreover have "x ^ n * x ^ n = x ^ (2 * n)"
    by (simp add: power_add [symmetric] mult_2)
  ultimately show ?thesis
    using assms(3) by simp
qed

lemma pow_upper_mul:
  fixes x :: real
  assumes "x ^ m \<le> a" and "x ^ n \<le> b" and "0 \<le> x" and "a * b \<le> c"
  shows "x ^ (m + n) \<le> c"
proof -
  have "0 \<le> x ^ m" "0 \<le> x ^ n"
    using assms(3) by simp_all
  then have "x ^ m * x ^ n \<le> a * b"
    using assms(1,2) by (intro mult_mono) simp_all
  then show ?thesis
    using assms(4) by (simp add: power_add)
qed

lemma decay_bounds:
  fixes q :: real
  assumes "q = 2999 / 3000"
  shows "7 / 19 < q ^ 2995" and "q ^ 2996 \<le> 7 / 19"
proof -
  have q0: "0 \<le> q"
    unfolding assms by simp
  have l1: "999666666666666 / 10 ^ 15 \<le> q ^ 1"
    unfolding assms by simp
  have h1: "q ^ 1 \<le> 999666666666667 / 10 ^ 15"
    unfolding assms by simp
  have l2: "999333444444443 / 10 ^ 15 \<le> q ^ 2"
    using pow_lower_sq [OF l1, where lo = "999333444444443 / 10 ^ 15"] by simp
  have h2: "q ^ 2 \<le> 999333444444446 / 10 ^ 15"
    using pow_upper_sq [OF h1 q0, where hi = "999333444444446 / 10 ^ 15"] by simp
  have l4: "998667333185194 / 10 ^ 15 \<le> q ^ 4"
    using pow_lower_sq [OF l2, where lo = "998667333185194 / 10 ^ 15"] by simp
  have h4: "q ^ 4 \<le> 998667333185201 / 10 ^ 15"
    using pow_upper_sq [OF h2 q0, where hi = "998667333185201 / 10 ^ 15"] by simp
  have l8: "997336442371227 / 10 ^ 15 \<le> q ^ 8"
    using pow_lower_sq [OF l4, where lo = "997336442371227 / 10 ^ 15"] by simp
  have h8: "q ^ 8 \<le> 997336442371242 / 10 ^ 15"
    using pow_upper_sq [OF h4 q0, where hi = "997336442371242 / 10 ^ 15"] by simp
  have l16: "994679979281695 / 10 ^ 15 \<le> q ^ 16"
    using pow_lower_sq [OF l8, where lo = "994679979281695 / 10 ^ 15"] by simp
  have h16: "q ^ 16 \<le> 994679979281726 / 10 ^ 15"
    using pow_upper_sq [OF h8 q0, where hi = "994679979281726 / 10 ^ 15"] by simp
  have l32: "989388261183833 / 10 ^ 15 \<le> q ^ 32"
    using pow_lower_sq [OF l16, where lo = "989388261183833 / 10 ^ 15"] by simp
  have h32: "q ^ 32 \<le> 989388261183895 / 10 ^ 15"
    using pow_upper_sq [OF h16 q0, where hi = "989388261183895 / 10 ^ 15"] by simp
  have l64: "978889131368368 / 10 ^ 15 \<le> q ^ 64"
    using pow_lower_sq [OF l32, where lo = "978889131368368 / 10 ^ 15"] by simp
  have h64: "q ^ 64 \<le> 978889131368492 / 10 ^ 15"
    using pow_upper_sq [OF h32 q0, where hi = "978889131368492 / 10 ^ 15"] by simp
  have l128: "958223931511118 / 10 ^ 15 \<le> q ^ 128"
    using pow_lower_sq [OF l64, where lo = "958223931511118 / 10 ^ 15"] by simp
  have h128: "q ^ 128 \<le> 958223931511361 / 10 ^ 15"
    using pow_upper_sq [OF h64 q0, where hi = "958223931511361 / 10 ^ 15"] by simp
  have l256: "918193102920623 / 10 ^ 15 \<le> q ^ 256"
    using pow_lower_sq [OF l128, where lo = "918193102920623 / 10 ^ 15"] by simp
  have h256: "q ^ 256 \<le> 918193102921090 / 10 ^ 15"
    using pow_upper_sq [OF h128 q0, where hi = "918193102921090 / 10 ^ 15"] by simp
  have l512: "843078574251001 / 10 ^ 15 \<le> q ^ 512"
    using pow_lower_sq [OF l256, where lo = "843078574251001 / 10 ^ 15"] by simp
  have h512: "q ^ 512 \<le> 843078574251860 / 10 ^ 15"
    using pow_upper_sq [OF h256 q0, where hi = "843078574251860 / 10 ^ 15"] by simp
  have l1024: "710781482361100 / 10 ^ 15 \<le> q ^ 1024"
    using pow_lower_sq [OF l512, where lo = "710781482361100 / 10 ^ 15"] by simp
  have h1024: "q ^ 1024 \<le> 710781482362550 / 10 ^ 15"
    using pow_upper_sq [OF h512 q0, where hi = "710781482362550 / 10 ^ 15"] by simp
  have l2048: "505210315667442 / 10 ^ 15 \<le> q ^ 2048"
    using pow_lower_sq [OF l1024, where lo = "505210315667442 / 10 ^ 15"] by simp
  have h2048: "q ^ 2048 \<le> 505210315669504 / 10 ^ 15"
    using pow_upper_sq [OF h1024 q0, where hi = "505210315669504 / 10 ^ 15"] by simp
  have a2560: "425931992629805 / 10 ^ 15 \<le> q ^ 2560"
    using pow_lower_mul [OF l2048 l512, where c = "425931992629805 / 10 ^ 15"] by simp
  have a2816: "391087817945924 / 10 ^ 15 \<le> q ^ 2816"
    using pow_lower_mul [OF a2560 l256, where c = "391087817945924 / 10 ^ 15"] by simp
  have a2944: "374749706478247 / 10 ^ 15 \<le> q ^ 2944"
    using pow_lower_mul [OF a2816 l128, where c = "374749706478247 / 10 ^ 15"] by simp
  have a2976: "370772960471664 / 10 ^ 15 \<le> q ^ 2976"
    using pow_lower_mul [OF a2944 l32, where c = "370772960471664 / 10 ^ 15"] by simp
  have a2992: "368800440640167 / 10 ^ 15 \<le> q ^ 2992"
    using pow_lower_mul [OF a2976 l16, where c = "368800440640167 / 10 ^ 15"] by simp
  have a2994: "368554614657566 / 10 ^ 15 \<le> q ^ 2994"
    using pow_lower_mul [OF a2992 l2, where c = "368554614657566 / 10 ^ 15"] by simp
  have a2995: "368431763119346 / 10 ^ 15 \<le> q ^ 2995"
    using pow_lower_mul [OF a2994 l1, where c = "368431763119346 / 10 ^ 15"] by simp
  have b2560: "q ^ 2560 \<le> 425931992631978 / 10 ^ 15"
    using pow_upper_mul [OF h2048 h512 q0, where c = "425931992631978 / 10 ^ 15"] by simp
  have b2816: "q ^ 2816 \<le> 391087817948119 / 10 ^ 15"
    using pow_upper_mul [OF b2560 h256 q0, where c = "391087817948119 / 10 ^ 15"] by simp
  have b2944: "q ^ 2944 \<le> 374749706480446 / 10 ^ 15"
    using pow_upper_mul [OF b2816 h128 q0, where c = "374749706480446 / 10 ^ 15"] by simp
  have b2976: "q ^ 2976 \<le> 370772960473864 / 10 ^ 15"
    using pow_upper_mul [OF b2944 h32 q0, where c = "370772960473864 / 10 ^ 15"] by simp
  have b2992: "q ^ 2992 \<le> 368800440642368 / 10 ^ 15"
    using pow_upper_mul [OF b2976 h16 q0, where c = "368800440642368 / 10 ^ 15"] by simp
  have b2996: "q ^ 2996 \<le> 368308952533841 / 10 ^ 15"
    using pow_upper_mul [OF b2992 h4 q0, where c = "368308952533841 / 10 ^ 15"] by simp
  show "7 / 19 < q ^ 2995"
    using a2995 by simp
  show "q ^ 2996 \<le> 7 / 19"
    using b2996 by simp
qed

text \<open>When the reset potential is the resting potential and the potential first reaches the
  threshold \<open>P\<close> steps after a start from rest, the run spikes every \<open>P\<close> steps.\<close>

lemma periodic_spiking:
  assumes reset: "u_reset p = u_rest p" and P: "0 < P"
    and below: "\<And>j. j < P \<Longrightarrow>
        u_rest p + R p * I * (1 - (1 - dt p / tau_m p) ^ j) < u_thres p"
    and reach: "u_thres p \<le> u_rest p + R p * I * (1 - (1 - dt p / tau_m p) ^ P)"
  shows "length (t_spike ((loop_body p I ^^ k) (init p))) = k div P \<and>
         u ((loop_body p I ^^ k) (init p)) =
           u_rest p + R p * I * (1 - (1 - dt p / tau_m p) ^ (k mod P))"
proof (induction k)
  case 0
  show ?case by (simp add: init_def)
next
  case (Suc k)
  define x where "x = (loop_body p I ^^ k) (init p)"
  define q where "q = 1 - dt p / tau_m p"
  have n: "length (t_spike x) = k div P" and ux: "u x = u_rest p + R p * I * (1 - q ^ (k mod P))"
    using Suc by (simp_all add: x_def q_def)
  have cand: "(1 - dt p / tau_m p) * u x + dt p / tau_m p * (u_rest p + R p * I) =
      u_rest p + R p * I * (1 - q ^ Suc (k mod P))"
    unfolding ux by (simp add: q_def algebra_simps)
  show ?case
  proof (cases "Suc (k mod P) = P")
    case True
    then have "Suc k mod P = 0" and "Suc k div P = Suc (k div P)"
      by (simp_all add: mod_Suc div_Suc)
    moreover have "u_thres p \<le> u_rest p + R p * I * (1 - q ^ Suc (k mod P))"
      using reach True by (simp add: q_def)
    ultimately show ?thesis
      using n reset cand
      by (simp add: x_def [symmetric] loop_body_u loop_body_count)
  next
    case False
    then have lt: "Suc (k mod P) < P"
      using P mod_less_divisor [of P k] by linarith
    from False have "Suc k mod P = Suc (k mod P)" and "Suc k div P = k div P"
      by (simp_all add: mod_Suc div_Suc)
    moreover have "u_rest p + R p * I * (1 - q ^ Suc (k mod P)) < u_thres p"
      using below [OF lt] by (simp add: q_def)
    ultimately show ?thesis
      using n cand
      by (simp add: x_def [symmetric] loop_body_u loop_body_count q_def)
  qed
qed

text \<open>
  Claim C8. With the script's parameters, a constant current of 250 pA and a horizon of 1 s,
  the run returns and has exactly 33 spikes: the loop makes 100001 steps and the potential
  reaches the threshold every 2996 steps.
\<close>

theorem reference_run_has_33_spikes:
  "spike_count p_ref 1 (250 / 10 ^ 12) = Some 33"
proof -
  define q :: real where "q = 2999 / 3000"
  have q: "1 - dt p_ref / tau_m p_ref = q"
    by (simp add: q_def q_ref)
  have q01: "0 \<le> q" "q \<le> 1"
    by (simp_all add: q_def)
  have lo: "7 / 19 < q ^ 2995" and hi: "q ^ 2996 \<le> 7 / 19"
    using decay_bounds [of q] by (simp_all add: q_def)
  have RI: "R p_ref * (250 / 10 ^ 12) = 19 / 800"
    by (simp add: p_ref_def)
  have th: "u_thres p_ref = u_rest p_ref + 3 / 200"
    by (simp add: p_ref_def)
  have below: "u_rest p_ref + R p_ref * (250 / 10 ^ 12) * (1 - (1 - dt p_ref / tau_m p_ref) ^ j)
      < u_thres p_ref" if "j < 2996" for j
  proof -
    from that have "j \<le> 2995" by simp
    from power_decreasing [OF this q01] lo have "7 / 19 < q ^ j"
      by simp
    then show ?thesis
      unfolding q RI th by simp
  qed
  have reach: "u_thres p_ref \<le>
      u_rest p_ref + R p_ref * (250 / 10 ^ 12) * (1 - (1 - dt p_ref / tau_m p_ref) ^ 2996)"
    unfolding q RI th using hi by simp
  have "u_reset p_ref = u_rest p_ref"
    by (simp add: p_ref_def)
  from periodic_spiking [OF this _ below reach, of 100001]
  have "length (t_spike ((loop_body p_ref (250 / 10 ^ 12) ^^ 100001) (init p_ref))) = 33"
    by simp
  then show ?thesis
    by (simp add: spike_count_def run_ref)
qed

subsection \<open>Task 5 with the script's numbers\<close>

text \<open>With 200 pA the potential first reaches the threshold in step 4674:
  \<open>(2999 / 3000) ^ 4673\<close> is above and \<open>(2999 / 3000) ^ 4674\<close> below \<open>4 / 19\<close>.\<close>

lemma decay_bounds_200:
  fixes q :: real
  assumes "q = 2999 / 3000"
  shows "4 / 19 < q ^ 4673" and "q ^ 4674 \<le> 4 / 19"
proof -
  have q0: "0 \<le> q"
    unfolding assms by simp
  have l1: "999666666666666 / 10 ^ 15 \<le> q ^ 1"
    unfolding assms by simp
  have h1: "q ^ 1 \<le> 999666666666667 / 10 ^ 15"
    unfolding assms by simp
  have l2: "999333444444443 / 10 ^ 15 \<le> q ^ 2"
    using pow_lower_sq [OF l1, where lo = "999333444444443 / 10 ^ 15"] by simp
  have h2: "q ^ 2 \<le> 999333444444446 / 10 ^ 15"
    using pow_upper_sq [OF h1 q0, where hi = "999333444444446 / 10 ^ 15"] by simp
  have l4: "998667333185194 / 10 ^ 15 \<le> q ^ 4"
    using pow_lower_sq [OF l2, where lo = "998667333185194 / 10 ^ 15"] by simp
  have h4: "q ^ 4 \<le> 998667333185201 / 10 ^ 15"
    using pow_upper_sq [OF h2 q0, where hi = "998667333185201 / 10 ^ 15"] by simp
  have l8: "997336442371227 / 10 ^ 15 \<le> q ^ 8"
    using pow_lower_sq [OF l4, where lo = "997336442371227 / 10 ^ 15"] by simp
  have h8: "q ^ 8 \<le> 997336442371242 / 10 ^ 15"
    using pow_upper_sq [OF h4 q0, where hi = "997336442371242 / 10 ^ 15"] by simp
  have l16: "994679979281695 / 10 ^ 15 \<le> q ^ 16"
    using pow_lower_sq [OF l8, where lo = "994679979281695 / 10 ^ 15"] by simp
  have h16: "q ^ 16 \<le> 994679979281726 / 10 ^ 15"
    using pow_upper_sq [OF h8 q0, where hi = "994679979281726 / 10 ^ 15"] by simp
  have l32: "989388261183833 / 10 ^ 15 \<le> q ^ 32"
    using pow_lower_sq [OF l16, where lo = "989388261183833 / 10 ^ 15"] by simp
  have h32: "q ^ 32 \<le> 989388261183895 / 10 ^ 15"
    using pow_upper_sq [OF h16 q0, where hi = "989388261183895 / 10 ^ 15"] by simp
  have l64: "978889131368368 / 10 ^ 15 \<le> q ^ 64"
    using pow_lower_sq [OF l32, where lo = "978889131368368 / 10 ^ 15"] by simp
  have h64: "q ^ 64 \<le> 978889131368492 / 10 ^ 15"
    using pow_upper_sq [OF h32 q0, where hi = "978889131368492 / 10 ^ 15"] by simp
  have l128: "958223931511118 / 10 ^ 15 \<le> q ^ 128"
    using pow_lower_sq [OF l64, where lo = "958223931511118 / 10 ^ 15"] by simp
  have h128: "q ^ 128 \<le> 958223931511361 / 10 ^ 15"
    using pow_upper_sq [OF h64 q0, where hi = "958223931511361 / 10 ^ 15"] by simp
  have l256: "918193102920623 / 10 ^ 15 \<le> q ^ 256"
    using pow_lower_sq [OF l128, where lo = "918193102920623 / 10 ^ 15"] by simp
  have h256: "q ^ 256 \<le> 918193102921090 / 10 ^ 15"
    using pow_upper_sq [OF h128 q0, where hi = "918193102921090 / 10 ^ 15"] by simp
  have l512: "843078574251001 / 10 ^ 15 \<le> q ^ 512"
    using pow_lower_sq [OF l256, where lo = "843078574251001 / 10 ^ 15"] by simp
  have h512: "q ^ 512 \<le> 843078574251860 / 10 ^ 15"
    using pow_upper_sq [OF h256 q0, where hi = "843078574251860 / 10 ^ 15"] by simp
  have l1024: "710781482361100 / 10 ^ 15 \<le> q ^ 1024"
    using pow_lower_sq [OF l512, where lo = "710781482361100 / 10 ^ 15"] by simp
  have h1024: "q ^ 1024 \<le> 710781482362550 / 10 ^ 15"
    using pow_upper_sq [OF h512 q0, where hi = "710781482362550 / 10 ^ 15"] by simp
  have l2048: "505210315667442 / 10 ^ 15 \<le> q ^ 2048"
    using pow_lower_sq [OF l1024, where lo = "505210315667442 / 10 ^ 15"] by simp
  have h2048: "q ^ 2048 \<le> 505210315669504 / 10 ^ 15"
    using pow_upper_sq [OF h1024 q0, where hi = "505210315669504 / 10 ^ 15"] by simp
  have l4096: "255237463056796 / 10 ^ 15 \<le> q ^ 4096"
    using pow_lower_sq [OF l2048, where lo = "255237463056796 / 10 ^ 15"] by simp
  have h4096: "q ^ 4096 \<le> 255237463058880 / 10 ^ 15"
    using pow_upper_sq [OF h2048 q0, where hi = "255237463058880 / 10 ^ 15"] by simp
  have a4608: "215185236449366 / 10 ^ 15 \<le> q ^ 4608"
    using pow_lower_mul [OF l4096 l512, where c = "215185236449366 / 10 ^ 15"] by simp
  have a4672: "210642489191216 / 10 ^ 15 \<le> q ^ 4672"
    using pow_lower_mul [OF a4608 l64, where c = "210642489191216 / 10 ^ 15"] by simp
  have a4673: "210572275028152 / 10 ^ 15 \<le> q ^ 4673"
    using pow_lower_mul [OF a4672 l1, where c = "210572275028152 / 10 ^ 15"] by simp
  have b4608: "q ^ 4608 \<le> 215185236451343 / 10 ^ 15"
    using pow_upper_mul [OF h4096 h512 q0, where c = "215185236451343 / 10 ^ 15"] by simp
  have b4672: "q ^ 4672 \<le> 210642489193179 / 10 ^ 15"
    using pow_upper_mul [OF b4608 h64 q0, where c = "210642489193179 / 10 ^ 15"] by simp
  have b4674: "q ^ 4674 \<le> 210502084271772 / 10 ^ 15"
    using pow_upper_mul [OF b4672 h2 q0, where c = "210502084271772 / 10 ^ 15"] by simp
  show "4 / 19 < q ^ 4673"
    using a4673 by simp
  show "q ^ 4674 \<le> 4 / 19"
    using b4674 by simp
qed


lemma t_funpow: "t ((loop_body p I ^^ k) s) = t s + real k * dt p"
  by (induction k) (simp_all add: t_loop_body algebra_simps)

lemma loop_body_t_spike:
  "t_spike (loop_body p I x) =
     (if u_thres p \<le> (1 - dt p / tau_m p) * u x + dt p / tau_m p * (u_rest p + R p * I)
      then t_spike x @ [t x]
      else t_spike x)"
  by (simp add: loop_body_def timestep_completed_def spike_condition_def store_u_def
      euler_forward_step_def euler_candidate)

text \<open>The time of the first spike, in the setting of \<open>periodic_spiking\<close>.\<close>

lemma first_spike_time:
  assumes reset: "u_reset p = u_rest p"
    and below: "\<And>j. j < Suc m \<Longrightarrow>
        u_rest p + R p * I * (1 - (1 - dt p / tau_m p) ^ j) < u_thres p"
    and reach: "u_thres p \<le> u_rest p + R p * I * (1 - (1 - dt p / tau_m p) ^ Suc m)"
  shows "t_spike ((loop_body p I ^^ Suc m) (init p)) = [real m * dt p]"
proof -
  define y where "y = (loop_body p I ^^ m) (init p)"
  have "length (t_spike y) = m div Suc m"
    using periodic_spiking [OF reset _ below reach, of m] by (simp add: y_def)
  then have e: "t_spike y = []"
    by simp
  have "length (t_spike (loop_body p I y)) = Suc m div Suc m"
    using periodic_spiking [OF reset _ below reach, of "Suc m"] by (simp add: y_def)
  then have "length (t_spike (loop_body p I y)) = 1"
    by simp
  then have "t_spike (loop_body p I y) = [t y]"
    unfolding loop_body_t_spike e by (simp split: if_splits)
  moreover have "t y = real m * dt p"
    by (simp add: y_def t_funpow init_def)
  ultimately show ?thesis
    by (simp add: y_def)
qed

text \<open>Before the cutoff a run of Task 5 is a run with a constant current.\<close>

lemma loop_body_5_before_cutoff:
  assumes "t x < ts"
  shows "sim.truncate (loop_body_5 p index ts x) = loop_body p (I_syn x) (sim.truncate x)"
    and "I_syn (loop_body_5 p index ts x) = I_syn x"
  using assms
  by (simp_all add: body_5_defs body_defs Let_def sim.truncate_def)

lemma t_funpow_5: "t ((loop_body_5 p index ts ^^ k) s) = t s + real k * dt p"
  by (induction k) (simp_all add: t_loop_body_5 algebra_simps)

lemma run_5_before_cutoff:
  assumes "\<And>j. j < k \<Longrightarrow> real j * dt p < ts"
  shows "sim.truncate ((loop_body_5 p index ts ^^ k) (init_5 p I l)) = (loop_body p I ^^ k) (init p) \<and>
         I_syn ((loop_body_5 p index ts ^^ k) (init_5 p I l)) = I"
  using assms
proof (induction k)
  case 0
  show ?case
    by (simp add: init_5_def init_def sim.truncate_def)
next
  case (Suc k)
  define x where "x = (loop_body_5 p index ts ^^ k) (init_5 p I l)"
  have IH: "sim.truncate x = (loop_body p I ^^ k) (init p)" "I_syn x = I"
    using Suc.IH Suc.prems by (simp_all add: x_def)
  have "t x = real k * dt p"
    by (simp add: x_def t_funpow_5 init_5_def)
  with Suc.prems [of k] have "t x < ts"
    by simp
  from loop_body_5_before_cutoff [OF this, of p index] IH show ?case
    by (simp add: x_def [symmetric])
qed

text \<open>For the first current of the list (\<open>index = 0\<close>, \<open>t_st\<close> still empty) the recorded time is
  the time of the first spike of the run, and it stays.\<close>

lemma t_st_first_spike_step:
  assumes "t_st x = take 1 (t_spike x)" and "length (n_spike x) = length (t_spike x)"
  shows "t_st (loop_body_5 p 0 ts x) = take 1 (t_spike (loop_body_5 p 0 ts x)) \<and>
         length (n_spike (loop_body_5 p 0 ts x)) = length (t_spike (loop_body_5 p 0 ts x)) \<and>
         (t_spike x \<noteq> [] \<longrightarrow> take 1 (t_spike (loop_body_5 p 0 ts x)) = take 1 (t_spike x))"
  using assms by (cases "t_spike x") (auto simp: body_5_defs Let_def)

lemma t_st_first_spike:
  assumes "t_st x = take 1 (t_spike x)" and "length (n_spike x) = length (t_spike x)"
  shows "t_st ((loop_body_5 p 0 ts ^^ k) x) = take 1 (t_spike ((loop_body_5 p 0 ts ^^ k) x)) \<and>
         length (n_spike ((loop_body_5 p 0 ts ^^ k) x)) =
           length (t_spike ((loop_body_5 p 0 ts ^^ k) x)) \<and>
         (t_spike x \<noteq> [] \<longrightarrow> take 1 (t_spike ((loop_body_5 p 0 ts ^^ k) x)) = take 1 (t_spike x))"
proof (induction k)
  case 0
  show ?case using assms by simp
next
  case (Suc k)
  define y where "y = (loop_body_5 p 0 ts ^^ k) x"
  from Suc have y: "t_st y = take 1 (t_spike y)" "length (n_spike y) = length (t_spike y)"
      "t_spike x \<noteq> [] \<longrightarrow> take 1 (t_spike y) = take 1 (t_spike x)"
    by (simp_all add: y_def)
  have "t_spike x \<noteq> [] \<longrightarrow> t_spike y \<noteq> []"
    using y(3) by auto
  with t_st_first_spike_step [OF y(1,2), of p ts] y(3) show ?case
    by (auto simp: y_def [symmetric])
qed

lemma steps_ref_5: "steps_left p_ref (15 / 100) (init_5 p_ref I l) = 15001"
  by (simp add: steps_left_def p_ref_def init_5_def)

lemma first_spike_200:
  "t_spike ((loop_body p_ref (200 / 10 ^ 12) ^^ 4674) (init p_ref)) = [4673 / 10 ^ 5]"
proof -
  define q :: real where "q = 2999 / 3000"
  have q: "1 - dt p_ref / tau_m p_ref = q"
    by (simp add: q_def q_ref)
  have q01: "0 \<le> q" "q \<le> 1"
    by (simp_all add: q_def)
  have lo: "4 / 19 < q ^ 4673" and hi: "q ^ 4674 \<le> 4 / 19"
    using decay_bounds_200 [of q] by (simp_all add: q_def)
  have RI: "R p_ref * (200 / 10 ^ 12) = 19 / 1000"
    by (simp add: p_ref_def)
  have th: "u_thres p_ref = u_rest p_ref + 15 / 1000"
    by (simp add: p_ref_def)
  have below: "u_rest p_ref + R p_ref * (200 / 10 ^ 12) * (1 - (1 - dt p_ref / tau_m p_ref) ^ j)
      < u_thres p_ref" if "j < Suc 4673" for j
  proof -
    from that have "j \<le> 4673" by simp
    from power_decreasing [OF this q01] lo have "4 / 19 < q ^ j"
      by simp
    then show ?thesis
      unfolding q RI th by simp
  qed
  have reach: "u_thres p_ref \<le>
      u_rest p_ref + R p_ref * (200 / 10 ^ 12) * (1 - (1 - dt p_ref / tau_m p_ref) ^ Suc 4673)"
    unfolding q RI th using hi by simp
  have "u_reset p_ref = u_rest p_ref"
    by (simp add: p_ref_def)
  from first_spike_time [OF this below reach]
  have "t_spike ((loop_body p_ref (200 / 10 ^ 12) ^^ Suc 4673) (init p_ref)) =
      [real 4673 * dt p_ref]"
    by simp
  moreover have "real 4673 * dt p_ref = 4673 / 10 ^ 5"
    by (simp add: p_ref_def)
  moreover have "Suc 4673 = 4674"
    by simp
  ultimately show ?thesis
    by simp
qed

text \<open>
  Claim C3 asks for the cutoff as the result of the duration search. What the script
  records (\<open>t_st.append(t)\<close>) and prints as \<open>tstimuli\<close> is the time \<open>t\<close> of the first spike.
  With the script's own numbers for the first current (200 pA, increments of 0.1 s, horizon
  0.15 s) the search stops after its first run, at the cutoff 0.1 s, and the time it has
  recorded is 0.04673 s.
\<close>

theorem script_duration_search_reports_spike_time:
  "\<exists>s. find_min_stimulus_duration p_ref (15 / 100) 0 (1 / 10) (200 / 10 ^ 12) [] =
         Some (Inr (1 / 10, s)) \<and>
       t_st s = [4673 / 10 ^ 5]"
proof -
  define body where "body = loop_body_5 p_ref 0 (0 + 1 / 10)"
  define start where "start = init_5 p_ref (200 / 10 ^ 12) []"
  define x where "x = (body ^^ 4674) start"
  define s where "s = (body ^^ 10327) x"
  have h: "0 < dt p_ref" "tau_m p_ref \<noteq> 0"
    by (simp_all add: p_ref_def)
  have "(body ^^ 15001) start = (body ^^ (10327 + 4674)) start"
    by simp
  also have "\<dots> = s"
    unfolding funpow_add by (simp add: s_def x_def)
  finally have run: "simulate_5 p_ref (15 / 100) 0 (0 + 1 / 10) start = Some (Inr s)"
    using simulate_5_unroll [OF h, where T = "15 / 100" and index = 0 and ts = "0 + 1 / 10" and s = start]
    by (simp only: steps_ref_5 start_def body_def)
  have "real j * dt p_ref < 0 + 1 / 10" if "j < 4674" for j
  proof -
    from that have "real j \<le> 4673" by simp
    then show ?thesis by (simp add: p_ref_def)
  qed
  from run_5_before_cutoff [OF this, where index = 0 and I = "200 / 10 ^ 12" and l = "[]"]
  have "sim.truncate x = (loop_body p_ref (200 / 10 ^ 12) ^^ 4674) (init p_ref)"
    by (simp add: x_def body_def start_def)
  then have "t_spike (sim.truncate x) = [4673 / 10 ^ 5]"
    by (simp only: first_spike_200)
  then have tx: "t_spike x = [4673 / 10 ^ 5]"
    by (simp add: sim.truncate_def)
  have "t_st start = take 1 (t_spike start)" "length (n_spike start) = length (t_spike start)"
    by (simp_all add: start_def init_5_def)
  from t_st_first_spike [OF this, where p = p_ref and ts = "0 + 1 / 10" and k = 4674]
  have x: "t_st x = take 1 (t_spike x)" "length (n_spike x) = length (t_spike x)"
    by (simp_all add: x_def body_def)
  from t_st_first_spike [OF x, where p = p_ref and ts = "0 + 1 / 10" and k = 10327] tx
  have "t_st s = [4673 / 10 ^ 5]" and "n_spike s \<noteq> []"
    by (auto simp: s_def body_def)
  with run have "search_duration p_ref (15 / 100) 0 (1 / 10) (200 / 10 ^ 12) 0 [] =
      Some (Inr (1 / 10, s))"
    by (subst search_duration.simps) (simp add: start_def)
  with \<open>t_st s = [4673 / 10 ^ 5]\<close> show ?thesis
    by (auto simp: find_min_stimulus_duration_def)
qed

text \<open>A current of 160 pA needs more than 0.1 s to reach the threshold, and less than
  0.15 s: \<open>(2999 / 3000) ^ 10000\<close> is above and \<open>(2999 / 3000) ^ 14336\<close> below \<open>1 / 76\<close>.\<close>

lemma decay_bounds_160:
  fixes q :: real
  assumes "q = 2999 / 3000"
  shows "1 / 76 < q ^ 10000" and "q ^ 14336 \<le> 1 / 76"
proof -
  have q0: "0 \<le> q"
    unfolding assms by simp
  have l1: "999666666666666 / 10 ^ 15 \<le> q ^ 1"
    unfolding assms by simp
  have h1: "q ^ 1 \<le> 999666666666667 / 10 ^ 15"
    unfolding assms by simp
  have l2: "999333444444443 / 10 ^ 15 \<le> q ^ 2"
    using pow_lower_sq [OF l1, where lo = "999333444444443 / 10 ^ 15"] by simp
  have h2: "q ^ 2 \<le> 999333444444446 / 10 ^ 15"
    using pow_upper_sq [OF h1 q0, where hi = "999333444444446 / 10 ^ 15"] by simp
  have l4: "998667333185194 / 10 ^ 15 \<le> q ^ 4"
    using pow_lower_sq [OF l2, where lo = "998667333185194 / 10 ^ 15"] by simp
  have h4: "q ^ 4 \<le> 998667333185201 / 10 ^ 15"
    using pow_upper_sq [OF h2 q0, where hi = "998667333185201 / 10 ^ 15"] by simp
  have l8: "997336442371227 / 10 ^ 15 \<le> q ^ 8"
    using pow_lower_sq [OF l4, where lo = "997336442371227 / 10 ^ 15"] by simp
  have h8: "q ^ 8 \<le> 997336442371242 / 10 ^ 15"
    using pow_upper_sq [OF h4 q0, where hi = "997336442371242 / 10 ^ 15"] by simp
  have l16: "994679979281695 / 10 ^ 15 \<le> q ^ 16"
    using pow_lower_sq [OF l8, where lo = "994679979281695 / 10 ^ 15"] by simp
  have h16: "q ^ 16 \<le> 994679979281726 / 10 ^ 15"
    using pow_upper_sq [OF h8 q0, where hi = "994679979281726 / 10 ^ 15"] by simp
  have l32: "989388261183833 / 10 ^ 15 \<le> q ^ 32"
    using pow_lower_sq [OF l16, where lo = "989388261183833 / 10 ^ 15"] by simp
  have h32: "q ^ 32 \<le> 989388261183895 / 10 ^ 15"
    using pow_upper_sq [OF h16 q0, where hi = "989388261183895 / 10 ^ 15"] by simp
  have l64: "978889131368368 / 10 ^ 15 \<le> q ^ 64"
    using pow_lower_sq [OF l32, where lo = "978889131368368 / 10 ^ 15"] by simp
  have h64: "q ^ 64 \<le> 978889131368492 / 10 ^ 15"
    using pow_upper_sq [OF h32 q0, where hi = "978889131368492 / 10 ^ 15"] by simp
  have l128: "958223931511118 / 10 ^ 15 \<le> q ^ 128"
    using pow_lower_sq [OF l64, where lo = "958223931511118 / 10 ^ 15"] by simp
  have h128: "q ^ 128 \<le> 958223931511361 / 10 ^ 15"
    using pow_upper_sq [OF h64 q0, where hi = "958223931511361 / 10 ^ 15"] by simp
  have l256: "918193102920623 / 10 ^ 15 \<le> q ^ 256"
    using pow_lower_sq [OF l128, where lo = "918193102920623 / 10 ^ 15"] by simp
  have h256: "q ^ 256 \<le> 918193102921090 / 10 ^ 15"
    using pow_upper_sq [OF h128 q0, where hi = "918193102921090 / 10 ^ 15"] by simp
  have l512: "843078574251001 / 10 ^ 15 \<le> q ^ 512"
    using pow_lower_sq [OF l256, where lo = "843078574251001 / 10 ^ 15"] by simp
  have h512: "q ^ 512 \<le> 843078574251860 / 10 ^ 15"
    using pow_upper_sq [OF h256 q0, where hi = "843078574251860 / 10 ^ 15"] by simp
  have l1024: "710781482361100 / 10 ^ 15 \<le> q ^ 1024"
    using pow_lower_sq [OF l512, where lo = "710781482361100 / 10 ^ 15"] by simp
  have h1024: "q ^ 1024 \<le> 710781482362550 / 10 ^ 15"
    using pow_upper_sq [OF h512 q0, where hi = "710781482362550 / 10 ^ 15"] by simp
  have l2048: "505210315667442 / 10 ^ 15 \<le> q ^ 2048"
    using pow_lower_sq [OF l1024, where lo = "505210315667442 / 10 ^ 15"] by simp
  have h2048: "q ^ 2048 \<le> 505210315669504 / 10 ^ 15"
    using pow_upper_sq [OF h1024 q0, where hi = "505210315669504 / 10 ^ 15"] by simp
  have l4096: "255237463056796 / 10 ^ 15 \<le> q ^ 4096"
    using pow_lower_sq [OF l2048, where lo = "255237463056796 / 10 ^ 15"] by simp
  have h4096: "q ^ 4096 \<le> 255237463058880 / 10 ^ 15"
    using pow_upper_sq [OF h2048 q0, where hi = "255237463058880 / 10 ^ 15"] by simp
  have l8192: "65146162547669 / 10 ^ 15 \<le> q ^ 8192"
    using pow_lower_sq [OF l4096, where lo = "65146162547669 / 10 ^ 15"] by simp
  have h8192: "q ^ 8192 \<le> 65146162548734 / 10 ^ 15"
    using pow_upper_sq [OF h4096 q0, where hi = "65146162548734 / 10 ^ 15"] by simp
  have a9216: "46304685985769 / 10 ^ 15 \<le> q ^ 9216"
    using pow_lower_mul [OF l8192 l1024, where c = "46304685985769 / 10 ^ 15"] by simp
  have a9728: "39038488642022 / 10 ^ 15 \<le> q ^ 9728"
    using pow_lower_mul [OF a9216 l512, where c = "39038488642022 / 10 ^ 15"] by simp
  have a9984: "35844871019549 / 10 ^ 15 \<le> q ^ 9984"
    using pow_lower_mul [OF a9728 l256, where c = "35844871019549 / 10 ^ 15"] by simp
  have a10000: "35654175563080 / 10 ^ 15 \<le> q ^ 10000"
    using pow_lower_mul [OF a9984 l16, where c = "35654175563080 / 10 ^ 15"] by simp
  have b12288: "q ^ 12288 \<le> 16627741256961 / 10 ^ 15"
    using pow_upper_mul [OF h8192 h4096 q0, where c = "16627741256961 / 10 ^ 15"] by simp
  have b14336: "q ^ 14336 \<le> 8400506409301 / 10 ^ 15"
    using pow_upper_mul [OF b12288 h2048 q0, where c = "8400506409301 / 10 ^ 15"] by simp
  show "1 / 76 < q ^ 10000"
    using a10000 by simp
  show "q ^ 14336 \<le> 1 / 76"
    using b14336 by simp
qed


text \<open>No spike as long as the closed form stays below the threshold.\<close>

lemma no_spike_while_below:
  assumes "\<And>j. 0 < j \<Longrightarrow> j \<le> n \<Longrightarrow>
      u_rest p + R p * I * (1 - (1 - dt p / tau_m p) ^ j) < u_thres p"
  shows "t_spike ((loop_body p I ^^ n) (init p)) = [] \<and>
         u ((loop_body p I ^^ n) (init p)) = u_rest p + R p * I * (1 - (1 - dt p / tau_m p) ^ n)"
  using assms
proof (induction n)
  case 0
  show ?case by (simp add: init_def)
next
  case (Suc n)
  define x where "x = (loop_body p I ^^ n) (init p)"
  have IH: "t_spike x = []" "u x = u_rest p + R p * I * (1 - (1 - dt p / tau_m p) ^ n)"
    using Suc.IH Suc.prems by (simp_all add: x_def)
  have cand: "(1 - dt p / tau_m p) * u x + dt p / tau_m p * (u_rest p + R p * I) =
      u_rest p + R p * I * (1 - (1 - dt p / tau_m p) ^ Suc n)"
    unfolding IH(2) by (simp add: algebra_simps)
  have "u_rest p + R p * I * (1 - (1 - dt p / tau_m p) ^ Suc n) < u_thres p"
    by (rule Suc.prems) simp_all
  with IH(1) cand show ?case
    by (simp add: x_def [symmetric] loop_body_u loop_body_t_spike)
qed

text \<open>After the cutoff the current is zero; a potential below the threshold stays below it
  when \<open>u_rest\<close> is below it and \<open>0 \<le> dt / tau_m \<le> 1\<close>.\<close>

lemma after_cutoff_step:
  assumes a: "0 \<le> dt p" "0 \<le> dt p / tau_m p" "dt p / tau_m p \<le> 1"
    and rest: "u_rest p < u_thres p"
    and x: "n_spike x = []" "u x < u_thres p" "ts \<le> t x"
  shows "n_spike (loop_body_5 p index ts x) = [] \<and> u (loop_body_5 p index ts x) < u_thres p \<and>
         ts \<le> t (loop_body_5 p index ts x) \<and> I_syn (loop_body_5 p index ts x) = 0"
proof -
  define c where "c = dt p / tau_m p"
  have c: "0 \<le> c" "0 \<le> 1 - c"
    using a by (simp_all add: c_def)
  have "(1 - c) * u x + c * u_rest p < u_thres p"
  proof (cases "c = 0")
    case True
    with x(2) show ?thesis by simp
  next
    case False
    with c have "0 < c" by simp
    with rest have "c * u_rest p < c * u_thres p"
      by simp
    moreover have "(1 - c) * u x \<le> (1 - c) * u_thres p"
      using x(2) c(2) by (intro mult_left_mono) simp_all
    ultimately have "(1 - c) * u x + c * u_rest p < (1 - c) * u_thres p + c * u_thres p"
      by simp
    then show ?thesis
      by (simp add: algebra_simps)
  qed
  then have "u x + du_dt p 0 (u x) * dt p < u_thres p"
    unfolding euler_candidate by (simp add: c_def)
  with x a(1) show ?thesis
    by (simp add: body_5_defs Let_def du_dt_def)
qed

lemma after_cutoff:
  assumes a: "0 \<le> dt p" "0 \<le> dt p / tau_m p" "dt p / tau_m p \<le> 1"
    and rest: "u_rest p < u_thres p"
    and x: "n_spike x = []" "u x < u_thres p" "ts \<le> t x"
  shows "n_spike ((loop_body_5 p index ts ^^ Suc k) x) = [] \<and>
         u ((loop_body_5 p index ts ^^ Suc k) x) < u_thres p \<and>
         ts \<le> t ((loop_body_5 p index ts ^^ Suc k) x) \<and>
         I_syn ((loop_body_5 p index ts ^^ Suc k) x) = 0"
proof (induction k)
  case 0
  from after_cutoff_step [OF a rest x] show ?case by simp
next
  case (Suc k)
  define y where "y = (loop_body_5 p index ts ^^ Suc k) x"
  from Suc have "n_spike y = []" "u y < u_thres p" "ts \<le> t y"
    by (simp_all add: y_def)
  from after_cutoff_step [OF a rest this, of index] show ?case
    by (simp add: y_def)
qed

lemma first_run_160:
  "\<exists>s. simulate_5 p_ref (15 / 100) 0 (0 + 1 / 10) (init_5 p_ref (160 / 10 ^ 12) []) = Some (Inr s) \<and>
       n_spike s = [] \<and> I_syn s = 0 \<and> t_st s = []"
proof -
  define body where "body = loop_body_5 p_ref 0 (0 + 1 / 10)"
  define start where "start = init_5 p_ref (160 / 10 ^ 12) []"
  define x where "x = (body ^^ 10000) start"
  define s where "s = (body ^^ Suc 5000) x"
  have h: "0 < dt p_ref" "tau_m p_ref \<noteq> 0"
    by (simp_all add: p_ref_def)
  have "(body ^^ 15001) start = (body ^^ (Suc 5000 + 10000)) start"
    by simp
  also have "\<dots> = s"
    unfolding funpow_add by (simp add: s_def x_def)
  finally have run: "simulate_5 p_ref (15 / 100) 0 (0 + 1 / 10) start = Some (Inr s)"
    using simulate_5_unroll [OF h, where T = "15 / 100" and index = 0 and ts = "0 + 1 / 10"
        and s = start]
    by (simp only: steps_ref_5 start_def body_def)
  define q :: real where "q = 2999 / 3000"
  have q: "1 - dt p_ref / tau_m p_ref = q"
    by (simp add: q_def q_ref)
  have q01: "0 \<le> q" "q \<le> 1"
    by (simp_all add: q_def)
  have lo: "1 / 76 < q ^ 10000"
    using decay_bounds_160(1) [of q] by (simp add: q_def)
  have RI: "R p_ref * (160 / 10 ^ 12) = 76 / 5000"
    by (simp add: p_ref_def)
  have th: "u_thres p_ref = u_rest p_ref + 75 / 5000"
    by (simp add: p_ref_def)
  have below: "u_rest p_ref + R p_ref * (160 / 10 ^ 12) * (1 - (1 - dt p_ref / tau_m p_ref) ^ j)
      < u_thres p_ref" if "j \<le> 10000" for j
  proof -
    from power_decreasing [OF that q01] lo have "1 / 76 < q ^ j"
      by simp
    then show ?thesis
      unfolding q RI th by simp
  qed
  have plain: "t_spike ((loop_body p_ref (160 / 10 ^ 12) ^^ 10000) (init p_ref)) = []"
    "u ((loop_body p_ref (160 / 10 ^ 12) ^^ 10000) (init p_ref)) < u_thres p_ref"
    using no_spike_while_below [of 10000 p_ref "160 / 10 ^ 12"] below [of 10000] below
    by simp_all
  have "real j * dt p_ref < 0 + 1 / 10" if "j < 10000" for j
  proof -
    from that have "real j \<le> 9999" by simp
    then show ?thesis by (simp add: p_ref_def)
  qed
  from run_5_before_cutoff [OF this, where index = 0 and I = "160 / 10 ^ 12" and l = "[]"]
  have tr: "sim.truncate x = (loop_body p_ref (160 / 10 ^ 12) ^^ 10000) (init p_ref)"
    by (simp add: x_def body_def start_def)
  have "t_spike (sim.truncate x) = []" "u (sim.truncate x) < u_thres p_ref"
    unfolding tr by (rule plain)+
  then have tx: "t_spike x = []" "u x < u_thres p_ref"
    by (simp_all add: sim.truncate_def)
  have "t_st start = take 1 (t_spike start)" "length (n_spike start) = length (t_spike start)"
    by (simp_all add: start_def init_5_def)
  from t_st_first_spike [OF this, where p = p_ref and ts = "0 + 1 / 10" and k = 10000] tx(1)
  have nx: "n_spike x = []" "t_st x = []"
    by (simp_all add: x_def body_def)
  have "t x = 0 + real 10000 * dt p_ref"
    by (simp add: x_def body_def start_def t_funpow_5 init_5_def)
  then have t: "0 + 1 / 10 \<le> t x"
    by (simp add: p_ref_def)
  have a: "0 \<le> dt p_ref" "0 \<le> dt p_ref / tau_m p_ref" "dt p_ref / tau_m p_ref \<le> 1"
    "u_rest p_ref < u_thres p_ref"
    by (simp_all add: p_ref_def)
  from after_cutoff [OF a nx(1) tx(2) t, where index = 0 and k = 5000]
  have s1: "n_spike s = []" "I_syn s = 0"
    unfolding s_def body_def by blast+
  have "t_st x = take 1 (t_spike x)" "length (n_spike x) = length (t_spike x)"
    using nx tx by simp_all
  from t_st_first_spike [OF this, where p = p_ref and ts = "0 + 1 / 10" and k = "Suc 5000"] s1(1)
  have "t_st s = []"
    by (simp add: s_def body_def)
  with run s1 show ?thesis
    by (simp add: start_def)
qed

lemma fresh_run_160:
  "\<exists>s. simulate_5 p_ref (15 / 100) 0 (2 / 10) (init_5 p_ref (160 / 10 ^ 12) []) = Some (Inr s) \<and>
       t_spike s \<noteq> []"
proof -
  define s where "s = (loop_body_5 p_ref 0 (2 / 10) ^^ 15001) (init_5 p_ref (160 / 10 ^ 12) [])"
  have h: "0 < dt p_ref" "tau_m p_ref \<noteq> 0"
    by (simp_all add: p_ref_def)
  have run: "simulate_5 p_ref (15 / 100) 0 (2 / 10) (init_5 p_ref (160 / 10 ^ 12) []) = Some (Inr s)"
    using simulate_5_unroll [OF h, where T = "15 / 100" and index = 0 and ts = "2 / 10"
        and s = "init_5 p_ref (160 / 10 ^ 12) []"]
    by (simp only: steps_ref_5 s_def)
  define q :: real where "q = 2999 / 3000"
  have hi: "q ^ 14336 \<le> 1 / 76"
    using decay_bounds_160(2) [of q] by (simp add: q_def)
  have "R p_ref * (160 / 10 ^ 12) = 76 / 5000" "u_thres p_ref = u_rest p_ref + 75 / 5000"
    by (simp_all add: p_ref_def)
  moreover have "Suc 14335 = 14336"
    by simp
  moreover have "75 / 5000 \<le> 76 / 5000 * (1 - q ^ 14336)"
    using hi by simp
  ultimately have "u_thres p_ref \<le> u_rest p_ref +
      R p_ref * (160 / 10 ^ 12) * (1 - (1 - dt p_ref / tau_m p_ref) ^ Suc 14335)"
    by (simp only: q_ref q_def [symmetric])
  from spike_once_reached [OF this, of 15001]
  have plain: "t_spike ((loop_body p_ref (160 / 10 ^ 12) ^^ 15001) (init p_ref)) \<noteq> []"
    by simp
  have "real j * dt p_ref < 2 / 10" if "j < 15001" for j
  proof -
    from that have "real j \<le> 15000" by simp
    then show ?thesis by (simp add: p_ref_def)
  qed
  from run_5_before_cutoff [OF this, where index = 0 and I = "160 / 10 ^ 12" and l = "[]"]
  have "sim.truncate s = (loop_body p_ref (160 / 10 ^ 12) ^^ 15001) (init p_ref)"
    by (simp add: s_def)
  with plain have "t_spike (sim.truncate s) \<noteq> []"
    by simp
  then have "t_spike s \<noteq> []"
    by (simp add: sim.truncate_def)
  with run show ?thesis
    by blast
qed

text \<open>
  Claim C4 asks for a stimulus without state. The assignment \<open>I_syn = 0\<close> outlives the run
  that made it. With the script's parameters, increment (0.1 s) and horizon (0.15 s), and a
  current of 160 pA: the first run of the search (cutoff 0.1 s) has no spike and leaves
  \<open>I_syn = 0\<close>; the next run (cutoff 0.2 s) therefore integrates with the current 0 at \<open>t = 0\<close>,
  where the bounded profile is 160 pA; a run with the cutoff 0.2 s that starts from 160 pA has
  a spike, but the search never returns.
\<close>

theorem script_stimulus_is_switched_off_for_good:
  "(\<exists>s. simulate_5 p_ref (15 / 100) 0 (1 / 10) (init_5 p_ref (160 / 10 ^ 12) []) = Some (Inr s) \<and>
        n_spike s = [] \<and> I_syn s = 0 \<and> t_st s = []) \<and>
   current_used (2 / 10) (init_5 p_ref 0 []) = 0 \<and>
   bounded_profile (160 / 10 ^ 12) (2 / 10) 0 = 160 / 10 ^ 12 \<and>
   (\<exists>s. simulate_5 p_ref (15 / 100) 0 (2 / 10) (init_5 p_ref (160 / 10 ^ 12) []) = Some (Inr s) \<and>
        t_spike s \<noteq> []) \<and>
   find_min_stimulus_duration p_ref (15 / 100) 0 (1 / 10) (160 / 10 ^ 12) [] = None"
proof -
  from first_run_160 obtain s
    where s: "simulate_5 p_ref (15 / 100) 0 (0 + 1 / 10) (init_5 p_ref (160 / 10 ^ 12) []) =
        Some (Inr s)" "n_spike s = []" "I_syn s = 0" "t_st s = []"
    by blast
  have "search_duration p_ref (15 / 100) 0 (1 / 10) 0 (0 + 1 / 10) [] = None"
    by (rule search_duration_zero) (simp_all add: p_ref_def)
  with s have "find_min_stimulus_duration p_ref (15 / 100) 0 (1 / 10) (160 / 10 ^ 12) [] = None"
    unfolding find_min_stimulus_duration_def
    by (subst search_duration.simps) simp
  moreover have "current_used (2 / 10) (init_5 p_ref 0 []) = 0"
    by (simp add: current_used_def switch_off_def init_5_def)
  moreover have "bounded_profile (160 / 10 ^ 12) (2 / 10) 0 = 160 / 10 ^ 12"
    by (simp add: bounded_profile_def)
  ultimately show ?thesis
    using first_run_160 fresh_run_160 by simp
qed

end
